theory Spec2Isabelle
  imports Main "HOL-Library.Sublist"
begin

section \<open>The Google Drive downloader (download_drive.py)\<close>

text \<open>
  The script has three functions: \<open>authenticate\<close>, \<open>download_all_files\<close> and \<open>main\<close>.
  Everything they do beyond returning a value is kept in a \<open>world\<close>: the files on disk
  and a trace of the log lines and of the outside calls, in the order the code makes them.
  The libraries are parameters: what \<open>pickle\<close>, a refresh, the interactive flow, a
  listing call and a media download answer is given by the records \<open>provider\<close> and
  \<open>service\<close>.
  A raised exception is the \<open>Inl\<close> of a sum; the world reached when it was raised is
  returned with it.
\<close>

subsection \<open>Data\<close>

type_synonym path = string
type_synonym bytes = string

text \<open>
  The attributes of a \<open>google.oauth2\<close> credential object that \<open>authenticate\<close> reads.
\<close>

record creds =
  valid :: bool
  expired :: bool
  refresh_token :: "string option"

text \<open>
  What \<open>pickle.load\<close> can hand back, as far as \<open>authenticate\<close> tells objects apart:
  an object with the attributes of a credential; an object whose truth value is false
  (\<open>None\<close>, which is also the initial value of \<open>creds\<close>, an empty container, zero);
  any other object, which is true and has no attribute \<open>valid\<close>.
\<close>

datatype pyobj = Credential creds | Falsy | Foreign

text \<open>A path holds a directory or a regular file with its bytes.\<close>

datatype node = Dir | File bytes

datatype error =
    FileNotFoundError string
  | UnpicklingError
  | AttributeError string
  | OSError path
  | SdkError string

datatype message =
    StartingAuthentication
  | LoadingToken path
  | RefreshingToken
  | InitiatingFlow
  | TokenSaved path
  | AuthenticationSuccessful
  | CreatingDirectory path
  | FetchingFileList
  | NoFilesFound
  | FoundFiles nat
  | SkippingGoogleDocs string
  | Downloaded string
  | FailedToDownload string error
  | ErrorFetchingFiles error
  | TotalDownloaded nat
  | ProgramFailed error

text \<open>
  The trace: \<open>Info\<close> and \<open>Error\<close> are the calls of \<open>logger.info\<close> and \<open>logger.error\<close>;
  \<open>OpenWrite p\<close> is a successful \<open>open(p, 'wb')\<close>; \<open>RefreshCall\<close> is
  \<open>creds.refresh(Request())\<close>; \<open>FlowRun\<close> is the interactive flow
  (\<open>InstalledAppFlow.from_client_secrets_file\<close> followed by \<open>run_local_server\<close>).
\<close>

datatype event =
    Info message
  | Error message
  | OpenWrite path
  | RefreshCall
  | FlowRun

text \<open>
  \<open>fs\<close> maps a path to what is there. \<open>writable p\<close> says whether the operating system
  lets the process create or truncate \<open>p\<close> (permissions, parent directory): the script
  never changes it.
\<close>

record world =
  fs :: "path \<rightharpoonup> node"
  writable :: "path \<Rightarrow> bool"
  trace :: "event list"

text \<open>
  One entry of a listing page. The request asks for the fields \<open>id\<close>, \<open>name\<close> and
  \<open>mimeType\<close>, and every entry is taken to carry the three of them.
\<close>

record entry =
  file_id :: string
  file_name :: string
  mime_type :: string

text \<open>
  The response of \<open>files().list(...).execute()\<close>: the keys \<open>files\<close> and
  \<open>nextPageToken\<close>, each of which may be missing.
\<close>

record listing =
  files :: "entry list option"
  nextPageToken :: "string option"

text \<open>
  What the successive calls of \<open>downloader.next_chunk()\<close> do for one file:
  \<open>More b m\<close> writes \<open>b\<close>, returns \<open>done = False\<close> and goes on as \<open>m\<close>;
  \<open>Final b\<close> writes \<open>b\<close> and returns \<open>done = True\<close>; \<open>Broken e\<close> raises \<open>e\<close>.
  A download is a finite sequence of chunks: the SDK is taken to end every download, with
  \<open>done\<close> or with an exception, after finitely many calls. The listing loop is not
  restricted in this way.
\<close>

datatype media = Final bytes | More bytes media | Broken error

text \<open>
  The client handle returned by \<open>build('drive', 'v3', credentials=creds)\<close>.
  \<open>files_list n t\<close> is \<open>files().list(pageSize=n, ..., pageToken=t).execute()\<close>.
  \<open>get_media fid\<close> is \<open>files().get_media(fileId=fid)\<close>, which only builds the request:
  the request is sent by the first \<open>next_chunk\<close>, so a refusal of the provider is a
  \<open>Broken\<close> first chunk.
\<close>

record service =
  bound_creds :: creds
  files_list :: "int \<Rightarrow> string option \<Rightarrow> error + listing"
  get_media :: "string \<Rightarrow> media"

text \<open>
  The libraries \<open>authenticate\<close> calls. \<open>loads b\<close> is what \<open>pickle.load\<close> makes of a
  file holding the bytes \<open>b\<close> (an object, or the exception raised) and \<open>dumps c\<close> are the
  bytes \<open>pickle.dump\<close> writes for the credential \<open>c\<close>; nothing is assumed of them.
  \<open>refresh c\<close> is what \<open>creds.refresh(Request())\<close> makes of the credential \<open>c\<close> (the
  refreshed credential, or the exception raised); \<open>run_flow\<close> is the outcome of the
  interactive flow once the credentials file is there; \<open>build\<close> is
  \<open>build('drive', 'v3', credentials=creds)\<close>, which is taken to return a client.
\<close>

record provider =
  loads :: "bytes \<Rightarrow> error + pyobj"
  dumps :: "creds \<Rightarrow> bytes"
  refresh :: "creds \<Rightarrow> error + creds"
  run_flow :: "error + creds"
  build :: "creds \<Rightarrow> service"

subsection \<open>The operating system and the logger\<close>

definition emit :: "event \<Rightarrow> world \<Rightarrow> world" where
  "emit e w = w\<lparr>trace := trace w @ [e]\<rparr>"

definition info :: "message \<Rightarrow> world \<Rightarrow> world" where
  "info m w = emit (Info m) w"

definition log_error :: "message \<Rightarrow> world \<Rightarrow> world" where
  "log_error m w = emit (Error m) w"

text \<open>The world with \<open>x\<close> at the path \<open>p\<close>.\<close>

definition put :: "path \<Rightarrow> node \<Rightarrow> world \<Rightarrow> world" where
  "put p x w = w\<lparr>fs := (fs w)(p \<mapsto> x)\<rparr>"

text \<open>\<open>os.path.exists\<close>\<close>

definition exists :: "path \<Rightarrow> world \<Rightarrow> bool" where
  "exists p w = (fs w p \<noteq> None)"

text \<open>\<open>os.path.join\<close> of two components (posixpath).\<close>

definition path_join :: "path \<Rightarrow> string \<Rightarrow> path" where
  "path_join a b =
     (if prefix ''/'' b then b
      else if a = [] \<or> suffix ''/'' a then a @ b
      else a @ ''/'' @ b)"

text \<open>
  \<open>open(p, 'wb')\<close>: fails on a directory and where the system refuses; otherwise the
  file is there and empty from that moment.
\<close>

definition open_wb :: "path \<Rightarrow> world \<Rightarrow> error + world" where
  "open_wb p w =
     (if fs w p = Some Dir \<or> \<not> writable w p then Inl (OSError p)
      else Inr (emit (OpenWrite p) (put p (File []) w)))"

text \<open>
  A \<open>write\<close> of bytes through the handle opened on \<open>p\<close>. The handle exists once
  \<open>open_wb\<close> has put a file there, so the first case is the one that occurs.
\<close>

definition write_bytes :: "path \<Rightarrow> bytes \<Rightarrow> world \<Rightarrow> world" where
  "write_bytes p b w =
     (case fs w p of
        Some (File old) \<Rightarrow> put p (File (old @ b)) w
      | _ \<Rightarrow> put p (File b) w)"

text \<open>\<open>pickle.dump(creds, token)\<close> through the handle opened on \<open>p\<close>.\<close>

definition pickle_dump :: "provider \<Rightarrow> path \<Rightarrow> creds \<Rightarrow> world \<Rightarrow> world" where
  "pickle_dump prov p c w = put p (File (dumps prov c)) w"

text \<open>\<open>open(p, 'rb')\<close> and \<open>pickle.load\<close>.\<close>

definition pickle_load :: "provider \<Rightarrow> path \<Rightarrow> world \<Rightarrow> error + pyobj" where
  "pickle_load prov p w =
     (case fs w p of
        None \<Rightarrow> Inl (FileNotFoundError p)
      | Some Dir \<Rightarrow> Inl (OSError p)
      | Some (File b) \<Rightarrow> loads prov b)"

text \<open>\<open>os.makedirs(p, exist_ok=True)\<close>\<close>

definition makedirs :: "path \<Rightarrow> world \<Rightarrow> error + world" where
  "makedirs p w =
     (case fs w p of
        Some Dir \<Rightarrow> Inr w
      | Some (File b) \<Rightarrow> Inl (OSError p)
      | None \<Rightarrow> if writable w p then Inr (put p Dir w) else Inl (OSError p))"

text \<open>Python's truth value of an optional string: \<open>None\<close> and \<open>''\<close> are false.\<close>

definition truthy :: "string option \<Rightarrow> bool" where
  "truthy t = (case t of None \<Rightarrow> False | Some s \<Rightarrow> s \<noteq> [])"

subsection \<open>authenticate\<close>

text \<open>
  Lines 40 to 44, the interactive branch: the check of the credentials file, then the flow.
\<close>

definition new_flow :: "provider \<Rightarrow> path \<Rightarrow> world \<Rightarrow> (error + creds) \<times> world" where
  "new_flow prov credentials_file w =
     (let w1 = info InitiatingFlow w in
      if \<not> exists credentials_file w1 then (Inl (FileNotFoundError credentials_file), w1)
      else (run_flow prov, emit FlowRun w1))"

text \<open>
  Lines 36 to 44: the choice between the refresh and the interactive branch, on the value
  of \<open>creds\<close>. (Line 35 has raised before for an object without credential attributes.)
\<close>

definition renew :: "provider \<Rightarrow> path \<Rightarrow> pyobj \<Rightarrow> world \<Rightarrow> (error + creds) \<times> world" where
  "renew prov credentials_file creds w =
     (case creds of
        Credential c \<Rightarrow>
          if expired c \<and> truthy (refresh_token c) then
            (refresh prov c, emit RefreshCall (info RefreshingToken w))
          else new_flow prov credentials_file w
      | Falsy \<Rightarrow> new_flow prov credentials_file w
      | Foreign \<Rightarrow> (Inl (AttributeError ''expired''), w))"

text \<open>Lines 47 to 49.\<close>

definition save_token :: "provider \<Rightarrow> path \<Rightarrow> creds \<Rightarrow> world \<Rightarrow> error + world" where
  "save_token prov token_file c w =
     (case open_wb token_file w of
        Inl e \<Rightarrow> Inl e
      | Inr w1 \<Rightarrow> Inr (info (TokenSaved token_file) (pickle_dump prov token_file c w1)))"

text \<open>Lines 51 and 52.\<close>

definition finish :: "provider \<Rightarrow> creds \<Rightarrow> world \<Rightarrow> (error + service) \<times> world" where
  "finish prov c w = (Inr (build prov c), info AuthenticationSuccessful w)"

text \<open>Lines 36 to 52, when the test of line 35 has come out true.\<close>

definition renew_and_save ::
  "provider \<Rightarrow> path \<Rightarrow> path \<Rightarrow> pyobj \<Rightarrow> world \<Rightarrow> (error + service) \<times> world" where
  "renew_and_save prov credentials_file token_file creds w =
     (case renew prov credentials_file creds w of
        (Inl e, w2) \<Rightarrow> (Inl e, w2)
      | (Inr c, w2) \<Rightarrow>
          (case save_token prov token_file c w2 of
             Inl e \<Rightarrow> (Inl e, w2)
           | Inr w3 \<Rightarrow> finish prov c w3))"

text \<open>
  Lines 35 to 52, on the value of \<open>creds\<close>. The test \<open>not creds or not creds.valid\<close> is
  true for a false object without looking at the attribute; it raises \<open>AttributeError\<close>
  for a true object that has no attribute \<open>valid\<close>.
\<close>

definition check_creds ::
  "provider \<Rightarrow> path \<Rightarrow> path \<Rightarrow> pyobj \<Rightarrow> world \<Rightarrow> (error + service) \<times> world" where
  "check_creds prov credentials_file token_file creds w =
     (case creds of
        Falsy \<Rightarrow> renew_and_save prov credentials_file token_file Falsy w
      | Foreign \<Rightarrow> (Inl (AttributeError ''valid''), w)
      | Credential c \<Rightarrow>
          if \<not> valid c then renew_and_save prov credentials_file token_file (Credential c) w
          else finish prov c w)"

definition authenticate :: "provider \<Rightarrow> path \<Rightarrow> path \<Rightarrow> world \<Rightarrow> (error + service) \<times> world" where
  "authenticate prov credentials_file token_file w =
     (let w0 = info StartingAuthentication w in
      if exists token_file w0 then
        (let w1 = info (LoadingToken token_file) w0 in
         case pickle_load prov token_file w1 of
           Inl e \<Rightarrow> (Inl e, w1)
         | Inr creds \<Rightarrow> check_creds prov credentials_file token_file creds w1)
      else check_creds prov credentials_file token_file Falsy w0)"

subsection \<open>download_all_files\<close>

definition native_prefix :: string where
  "native_prefix = ''application/vnd.google-apps''"

text \<open>The loop \<open>while not done: _, done = downloader.next_chunk()\<close>, writing to \<open>p\<close>.\<close>

fun next_chunks :: "path \<Rightarrow> media \<Rightarrow> world \<Rightarrow> (error + unit) \<times> world" where
  "next_chunks p (Final b) w = (Inr (), write_bytes p b w)"
| "next_chunks p (More b m) w = next_chunks p m (write_bytes p b w)"
| "next_chunks p (Broken e) w = (Inl e, w)"

text \<open>Lines 87 to 92, the body of the inner \<open>try\<close> up to the end of the \<open>with\<close> block.\<close>

definition transfer :: "service \<Rightarrow> string \<Rightarrow> path \<Rightarrow> world \<Rightarrow> (error + unit) \<times> world" where
  "transfer svc fid p w =
     (let request = get_media svc fid in
      case open_wb p w of
        Inl e \<Rightarrow> (Inl e, w)
      | Inr w1 \<Rightarrow> next_chunks p request w1)"

text \<open>The body of the \<open>for\<close> loop, lines 77 to 96.\<close>

definition download_item :: "service \<Rightarrow> path \<Rightarrow> entry \<Rightarrow> world \<times> nat \<Rightarrow> world \<times> nat" where
  "download_item svc save_dir item st =
     (case st of (w, file_count) \<Rightarrow>
        (let p = path_join save_dir (file_name item) in
         if prefix native_prefix (mime_type item) then
           (info (SkippingGoogleDocs (file_name item)) w, file_count)
         else
           (case transfer svc (file_id item) p w of
              (Inr u, w1) \<Rightarrow> (info (Downloaded (file_name item)) w1, file_count + 1)
            | (Inl e, w1) \<Rightarrow> (log_error (FailedToDownload (file_name item) e) w1, file_count))))"

fun download_items :: "service \<Rightarrow> path \<Rightarrow> entry list \<Rightarrow> world \<times> nat \<Rightarrow> world \<times> nat" where
  "download_items svc save_dir [] st = st"
| "download_items svc save_dir (item # items) st =
     download_items svc save_dir items (download_item svc save_dir item st)"

text \<open>
  One turn of \<open>while True\<close>, lines 62 to 104: it ends the loop with the world and the count
  (\<open>Break\<close>), or goes on with the next page token (\<open>Continue\<close>).
\<close>

datatype turn = Break "world \<times> nat" | Continue "string option" "world \<times> nat"

definition fetch_page :: "service \<Rightarrow> path \<Rightarrow> int \<Rightarrow> string option \<Rightarrow> world \<times> nat \<Rightarrow> turn" where
  "fetch_page svc save_dir page_size page_token st =
     (case st of (w, file_count) \<Rightarrow>
        (let w1 = info FetchingFileList w in
         (case files_list svc page_size page_token of
            Inl e \<Rightarrow> Break (log_error (ErrorFetchingFiles e) w1, file_count)
          | Inr results \<Rightarrow>
              (let items = (case files results of None \<Rightarrow> [] | Some xs \<Rightarrow> xs) in
               if items = [] then Break (info NoFilesFound w1, file_count)
               else
                 (let st2 = download_items svc save_dir items
                              (info (FoundFiles (length items)) w1, file_count);
                      page_token2 = nextPageToken results
                  in if \<not> truthy page_token2 then Break st2
                     else Continue page_token2 st2)))))"

text \<open>The loop itself. It need not end: the value \<open>None\<close> stands for a run that never returns.\<close>

partial_function (option) fetch_loop ::
  "service \<Rightarrow> path \<Rightarrow> int \<Rightarrow> string option \<Rightarrow> world \<times> nat \<Rightarrow> (world \<times> nat) option" where
  "fetch_loop svc save_dir page_size page_token st =
     (case fetch_page svc save_dir page_size page_token st of
        Break r \<Rightarrow> Some r
      | Continue page_token2 st2 \<Rightarrow> fetch_loop svc save_dir page_size page_token2 st2)"

declare fetch_loop.simps [code]

definition download_all_files ::
  "service \<Rightarrow> path \<Rightarrow> int \<Rightarrow> world \<Rightarrow> ((error + nat) \<times> world) option" where
  "download_all_files svc save_dir page_size w =
     (let w0 = info (CreatingDirectory save_dir) w in
      case makedirs save_dir w0 of
        Inl e \<Rightarrow> Some (Inl e, w0)
      | Inr w1 \<Rightarrow>
          (case fetch_loop svc save_dir page_size None (w1, 0) of
             None \<Rightarrow> None
           | Some (w2, file_count) \<Rightarrow> Some (Inr file_count, info (TotalDownloaded file_count) w2)))"

subsection \<open>main\<close>

record args =
  save_dir :: path
  credentials :: path
  token :: path
  page_size :: int

text \<open>The result is the exit code of the process and the world it leaves.\<close>

definition main :: "provider \<Rightarrow> args \<Rightarrow> world \<Rightarrow> (nat \<times> world) option" where
  "main prov a w =
     (case authenticate prov (credentials a) (token a) w of
        (Inl e, w1) \<Rightarrow> Some (1, log_error (ProgramFailed e) w1)
      | (Inr svc, w1) \<Rightarrow>
          (case download_all_files svc (save_dir a) (page_size a) w1 of
             None \<Rightarrow> None
           | Some (Inl e, w2) \<Rightarrow> Some (1, log_error (ProgramFailed e) w2)
           | Some (Inr n, w2) \<Rightarrow> Some (0, w2)))"

subsection \<open>Notions used to state the properties\<close>

text \<open>The path \<open>download_all_files\<close> writes an entry to, and the test of line 82.\<close>

definition entry_path :: "path \<Rightarrow> entry \<Rightarrow> path" where
  "entry_path dir item = path_join dir (file_name item)"

definition native :: "entry \<Rightarrow> bool" where
  "native item = prefix native_prefix (mime_type item)"

text \<open>Whether \<open>open(p, 'wb')\<close> succeeds in a world.\<close>

definition openable :: "world \<Rightarrow> path \<Rightarrow> bool" where
  "openable w p = (fs w p \<noteq> Some Dir \<and> writable w p)"

text \<open>
  What a download delivers, read off the chunks alone: how it ends, and the bytes written
  before it ends.
\<close>

fun run_media :: "media \<Rightarrow> (error + unit) \<times> bytes" where
  "run_media (Final b) = (Inr (), b)"
| "run_media (More b m) = (case run_media m of (r, bs) \<Rightarrow> (r, b @ bs))"
| "run_media (Broken e) = (Inl e, [])"

text \<open>
  An entry is \<open>opened\<close> when the code opens its file for writing, and \<open>completed\<close> when
  its transfer runs to the end without an error.
\<close>

definition opened :: "path \<Rightarrow> world \<Rightarrow> entry \<Rightarrow> bool" where
  "opened dir w item = (\<not> native item \<and> openable w (entry_path dir item))"

definition completed :: "service \<Rightarrow> path \<Rightarrow> world \<Rightarrow> entry \<Rightarrow> bool" where
  "completed svc dir w item =
     (\<not> native item \<and> openable w (entry_path dir item) \<and>
      (case fst (run_media (get_media svc (file_id item))) of Inl e \<Rightarrow> False | Inr u \<Rightarrow> True))"

text \<open>
  Why the transfer of an entry does not complete, if it does not: its file cannot be
  opened, or a chunk raises. \<open>None\<close> for a native entry, which is not transferred, and for
  an entry whose transfer completes.
\<close>

definition failure :: "service \<Rightarrow> path \<Rightarrow> world \<Rightarrow> entry \<Rightarrow> error option" where
  "failure svc dir w item =
     (if native item then None
      else if \<not> openable w (entry_path dir item) then Some (OSError (entry_path dir item))
      else (case fst (run_media (get_media svc (file_id item))) of
              Inl e \<Rightarrow> Some e
            | Inr u \<Rightarrow> None))"

text \<open>The failures a list of entries runs into, in order, each with the name of its entry.\<close>

fun failures :: "service \<Rightarrow> path \<Rightarrow> world \<Rightarrow> entry list \<Rightarrow> (string \<times> error) list" where
  "failures svc dir w [] = []"
| "failures svc dir w (item # items) =
     (case failure svc dir w item of
        None \<Rightarrow> failures svc dir w items
      | Some e \<Rightarrow> (file_name item, e) # failures svc dir w items)"

text \<open>
  The lines \<open>Failed to download\<close> that \<open>logger.error\<close> has written, in order, and the
  same for a world.
\<close>

fun failed_logs :: "event list \<Rightarrow> (string \<times> error) list" where
  "failed_logs [] = []"
| "failed_logs (Error (FailedToDownload name e) # es) = (name, e) # failed_logs es"
| "failed_logs (x # es) = failed_logs es"

definition errors_logged :: "world \<Rightarrow> (string \<times> error) list" where
  "errors_logged w = failed_logs (trace w)"

text \<open>The paths opened for writing, in order, and the events a step added to the trace.\<close>

fun opened_paths :: "event list \<Rightarrow> path list" where
  "opened_paths [] = []"
| "opened_paths (OpenWrite p # es) = p # opened_paths es"
| "opened_paths (e # es) = opened_paths es"

definition writes :: "world \<Rightarrow> path list" where
  "writes w = opened_paths (trace w)"

definition new_events :: "world \<Rightarrow> world \<Rightarrow> event list" where
  "new_events w w' = drop (length (trace w)) (trace w')"

text \<open>The entries of a response: \<open>results.get('files', [])\<close>.\<close>

definition items_of :: "listing \<Rightarrow> entry list" where
  "items_of results = (case files results of None \<Rightarrow> [] | Some xs \<Rightarrow> xs)"

text \<open>
  \<open>visits svc n t items t'\<close>: asked for the page of token \<open>t\<close>, the service answers with
  a run of pages that are not empty and each name a next page; \<open>items\<close> are their entries
  in order, and \<open>t'\<close> is the token of the page that comes after them.
\<close>

inductive visits :: "service \<Rightarrow> int \<Rightarrow> string option \<Rightarrow> entry list \<Rightarrow> string option \<Rightarrow> bool"
  for svc :: service and n :: int where
  here: "visits svc n t [] t"
| page: "files_list svc n t = Inr results \<Longrightarrow> items_of results \<noteq> [] \<Longrightarrow>
         truthy (nextPageToken results) \<Longrightarrow>
         visits svc n (nextPageToken results) rest t' \<Longrightarrow>
         visits svc n t (items_of results @ rest) t'"

code_pred visits .

text \<open>
  \<open>reaches svc dir n s s'\<close>: the loop in state \<open>s\<close> (page token, world, count) comes to
  the top of the loop in state \<open>s'\<close> after some turns.
\<close>

inductive reaches ::
  "service \<Rightarrow> path \<Rightarrow> int \<Rightarrow> string option \<times> world \<times> nat \<Rightarrow> string option \<times> world \<times> nat \<Rightarrow> bool"
  for svc :: service and dir :: path and n :: int where
  stay: "reaches svc dir n s s"
| turn: "fetch_page svc dir n t st = Continue t2 st2 \<Longrightarrow> reaches svc dir n (t2, st2) s' \<Longrightarrow>
         reaches svc dir n (t, st) s'"

code_pred reaches .

text \<open>
  \<open>last_page svc n t\<close>: the entries of the page of token \<open>t\<close> when the loop ends on
  that page: the call raises, the page is empty, or it names no next page.
\<close>

definition last_page :: "service \<Rightarrow> int \<Rightarrow> string option \<Rightarrow> entry list option" where
  "last_page svc n t =
     (case files_list svc n t of
        Inl e \<Rightarrow> Some []
      | Inr results \<Rightarrow>
          if items_of results = [] then Some []
          else if \<not> truthy (nextPageToken results) then Some (items_of results)
          else None)"

text \<open>
  Whether \<open>authenticate\<close> comes to the interactive branch (line 40): there is no token
  file, or what it unpickles to is a false object, or a credential that is neither valid
  nor refreshable.
\<close>

definition interactive_branch :: "provider \<Rightarrow> path \<Rightarrow> world \<Rightarrow> bool" where
  "interactive_branch prov token_file w =
     (case fs w token_file of
        None \<Rightarrow> True
      | Some Dir \<Rightarrow> False
      | Some (File b) \<Rightarrow>
          (case loads prov b of
             Inl e \<Rightarrow> False
           | Inr Falsy \<Rightarrow> True
           | Inr Foreign \<Rightarrow> False
           | Inr (Credential c) \<Rightarrow> \<not> valid c \<and> \<not> (expired c \<and> truthy (refresh_token c))))"

subsection \<open>Concrete runs\<close>

definition creds_ok :: creds where
  "creds_ok = \<lparr>valid = True, expired = False, refresh_token = Some ''r1''\<rparr>"

definition creds_old :: creds where
  "creds_old = \<lparr>valid = False, expired = True, refresh_token = Some ''r1''\<rparr>"

text \<open>
  A stand-in for pickle on the few byte strings used below: \<open>N.\<close> is the pickle of
  \<open>None\<close>; the two credentials have the bytes \<open>dumps0\<close> gives them; anything else is
  rejected.
\<close>

definition dumps0 :: "creds \<Rightarrow> bytes" where
  "dumps0 c =
     (if valid c then ''V'' else ''v'') @ (if expired c then ''E'' else ''e'') @
     (case refresh_token c of None \<Rightarrow> ''-'' | Some s \<Rightarrow> ''+'' @ s)"

definition loads0 :: "bytes \<Rightarrow> error + pyobj" where
  "loads0 b =
     (if b = ''N.'' then Inr Falsy
      else if b = dumps0 creds_ok then Inr (Credential creds_ok)
      else if b = dumps0 creds_old then Inr (Credential creds_old)
      else Inl UnpicklingError)"

definition world0 :: world where
  "world0 = \<lparr>fs = Map.empty, writable = (\<lambda>p. True), trace = []\<rparr>"

text \<open>Both files are there; the token file holds the bytes \<open>b\<close>.\<close>

definition world_token :: "bytes \<Rightarrow> world" where
  "world_token b = put ''credentials.json'' (File ''{}'') (put ''token.pkl'' (File b) world0)"

text \<open>Only the token file is there, and the system refuses to open it for writing.\<close>

definition world_readonly :: "bytes \<Rightarrow> world" where
  "world_readonly b =
     \<lparr>fs = [''token.pkl'' \<mapsto> File b], writable = (\<lambda>p. p \<noteq> ''token.pkl''), trace = []\<rparr>"

definition args0 :: args where
  "args0 = \<lparr>save_dir = ''drive_download'', credentials = ''credentials.json'',
            token = ''token.pkl'', page_size = 1000\<rparr>"

definition doc1 :: entry where
  "doc1 = \<lparr>file_id = ''1'', file_name = ''notes'',
           mime_type = ''application/vnd.google-apps.document''\<rparr>"

definition pic2 :: entry where
  "pic2 = \<lparr>file_id = ''2'', file_name = ''a.png'', mime_type = ''image/png''\<rparr>"

definition doc3 :: entry where
  "doc3 = \<lparr>file_id = ''3'', file_name = ''sheet'',
           mime_type = ''application/vnd.google-apps.spreadsheet''\<rparr>"

definition txt4 :: entry where
  "txt4 = \<lparr>file_id = ''4'', file_name = ''b.txt'', mime_type = ''text/plain''\<rparr>"

definition bin5 :: entry where
  "bin5 = \<lparr>file_id = ''5'', file_name = ''c.bin'', mime_type = ''application/octet-stream''\<rparr>"

definition gone9 :: entry where
  "gone9 = \<lparr>file_id = ''9'', file_name = ''gone'', mime_type = ''text/plain''\<rparr>"

text \<open>
  The downloads: file 5 breaks after its first chunk; the request for an unknown id is
  refused when the first chunk is asked for.
\<close>

definition media_of :: "string \<Rightarrow> media" where
  "media_of fid =
     (if fid = ''2'' then More ''ab'' (Final ''c'')
      else if fid = ''4'' then Final ''hello''
      else if fid = ''5'' then More ''xy'' (Broken (SdkError ''reset''))
      else Broken (SdkError ''not found''))"

definition drive :: "(string option \<Rightarrow> error + listing) \<Rightarrow> creds \<Rightarrow> service" where
  "drive pages c = \<lparr>bound_creds = c, files_list = (\<lambda>n. pages), get_media = media_of\<rparr>"

text \<open>Two pages of two entries, one native entry on each.\<close>

definition two_pages :: "string option \<Rightarrow> error + listing" where
  "two_pages t =
     (if t = None then Inr \<lparr>files = Some [doc1, pic2], nextPageToken = Some ''p2''\<rparr>
      else if t = Some ''p2'' then Inr \<lparr>files = Some [doc3, txt4], nextPageToken = None\<rparr>
      else Inl (SdkError ''bad token''))"

text \<open>The call for the second page raises; on the first page one download breaks.\<close>

definition second_fails :: "string option \<Rightarrow> error + listing" where
  "second_fails t =
     (if t = None then Inr \<lparr>files = Some [pic2, bin5], nextPageToken = Some ''p2''\<rparr>
      else Inl (SdkError ''backend error''))"

text \<open>The first call raises.\<close>

definition first_fails :: "string option \<Rightarrow> error + listing" where
  "first_fails t = Inl (SdkError ''backend error'')"

text \<open>The second page is empty and names a third page.\<close>

definition empty_second :: "string option \<Rightarrow> error + listing" where
  "empty_second t =
     (if t = None then Inr \<lparr>files = Some [pic2], nextPageToken = Some ''p2''\<rparr>
      else if t = Some ''p2'' then Inr \<lparr>files = Some [], nextPageToken = Some ''p3''\<rparr>
      else Inr \<lparr>files = Some [txt4], nextPageToken = None\<rparr>)"

text \<open>
  The libraries with the stand-in for pickle, a refresh that answers \<open>r\<close>, an interactive
  flow that hands out \<open>creds_ok\<close> and the listing \<open>pages\<close>.
\<close>

definition google :: "(error + creds) \<Rightarrow> (string option \<Rightarrow> error + listing) \<Rightarrow> provider" where
  "google r pages =
     \<lparr>loads = loads0, dumps = dumps0, refresh = (\<lambda>c. r), run_flow = Inr creds_ok,
      build = drive pages\<rparr>"

section \<open>Properties of the model\<close>

subsection \<open>The world\<close>

lemma fs_put [simp]: "fs (put p x w) = (fs w)(p \<mapsto> x)"
  and writable_put [simp]: "writable (put p x w) = writable w"
  and trace_put [simp]: "trace (put p x w) = trace w"
  by (simp_all add: put_def)

lemma fs_emit [simp]: "fs (emit e w) = fs w"
  and writable_emit [simp]: "writable (emit e w) = writable w"
  and trace_emit [simp]: "trace (emit e w) = trace w @ [e]"
  by (simp_all add: emit_def)

lemma put_put [simp]: "put p x (put p y w) = put p x w"
  by (simp add: put_def)

lemma put_same: "fs w p = Some x \<Longrightarrow> put p x w = w"
  by (simp add: put_def fun_upd_idem)

lemma put_emit: "put p x (emit e w) = emit e (put p x w)"
  by (simp add: put_def emit_def)

subsection \<open>One transfer\<close>

lemma write_bytes_file:
  "fs w p = Some (File old) \<Longrightarrow> write_bytes p b w = put p (File (old @ b)) w"
  by (simp add: write_bytes_def)

lemma next_chunks_eq:
  "fs w p = Some (File old) \<Longrightarrow>
   next_chunks p m w = (fst (run_media m), put p (File (old @ snd (run_media m))) w)"
proof (induction m arbitrary: w old)
  case (Final b)
  show ?case by (simp add: write_bytes_file [OF Final])
next
  case (More b m)
  have "fs (write_bytes p b w) p = Some (File (old @ b))"
    by (simp add: write_bytes_file [OF More.prems])
  from More.IH [OF this] show ?case
    by (simp add: write_bytes_file [OF More.prems] split: prod.splits)
next
  case (Broken e)
  then show ?case by (simp add: put_same)
qed

lemma transfer_eq:
  "transfer svc fid p w =
     (if \<not> openable w p then (Inl (OSError p), w)
      else (fst (run_media (get_media svc fid)),
            emit (OpenWrite p) (put p (File (snd (run_media (get_media svc fid)))) w)))"
proof (cases "openable w p")
  case False
  then show ?thesis by (auto simp: transfer_def open_wb_def openable_def)
next
  case True
  let ?w1 = "emit (OpenWrite p) (put p (File []) w)"
  have o: "open_wb p w = Inr ?w1" using True by (auto simp: open_wb_def openable_def)
  have "fs ?w1 p = Some (File [])" by simp
  from next_chunks_eq [OF this, of "get_media svc fid"] show ?thesis
    using True o by (simp add: transfer_def put_emit)
qed

lemma download_item_eq:
  "download_item svc dir item (w, k) =
     (if native item then (info (SkippingGoogleDocs (file_name item)) w, k)
      else if \<not> openable w (entry_path dir item) then
        (log_error (FailedToDownload (file_name item) (OSError (entry_path dir item))) w, k)
      else
        (let m = get_media svc (file_id item);
             w1 = emit (OpenWrite (entry_path dir item))
                    (put (entry_path dir item) (File (snd (run_media m))) w)
         in case fst (run_media m) of
              Inl e \<Rightarrow> (log_error (FailedToDownload (file_name item) e) w1, k)
            | Inr u \<Rightarrow> (info (Downloaded (file_name item)) w1, k + 1)))"
  by (simp add: download_item_def transfer_eq native_def entry_path_def Let_def split: sum.splits)

subsection \<open>One page\<close>

lemma fs_info [simp]: "fs (info m w) = fs w"
  and writable_info [simp]: "writable (info m w) = writable w"
  and trace_info [simp]: "trace (info m w) = trace w @ [Info m]"
  and fs_log_error [simp]: "fs (log_error m w) = fs w"
  and writable_log_error [simp]: "writable (log_error m w) = writable w"
  and trace_log_error [simp]: "trace (log_error m w) = trace w @ [Error m]"
  by (simp_all add: info_def log_error_def)

lemma opened_paths_append [simp]:
  "opened_paths (xs @ ys) = opened_paths xs @ opened_paths ys"
  by (induction xs rule: opened_paths.induct) simp_all

lemma failed_logs_append [simp]:
  "failed_logs (xs @ ys) = failed_logs xs @ failed_logs ys"
  by (induction xs rule: failed_logs.induct) simp_all

lemma errors_logged_put [simp]: "errors_logged (put p x w) = errors_logged w"
  and errors_logged_emit: "errors_logged (emit e w) = errors_logged w @ failed_logs [e]"
  and errors_logged_info [simp]: "errors_logged (info m w) = errors_logged w"
  and errors_logged_log_error:
    "errors_logged (log_error m w) = errors_logged w @ failed_logs [Error m]"
  by (simp_all add: errors_logged_def)

lemma failures_append [simp]:
  "failures svc dir w (xs @ ys) = failures svc dir w xs @ failures svc dir w ys"
  by (induction xs) (simp_all split: option.splits)

lemma writes_put [simp]: "writes (put p x w) = writes w"
  and writes_emit: "writes (emit e w) = writes w @ opened_paths [e]"
  and writes_info [simp]: "writes (info m w) = writes w"
  and writes_log_error [simp]: "writes (log_error m w) = writes w"
  by (simp_all add: writes_def)

lemma openable_emit [simp]: "openable (emit e w) q = openable w q"
  and openable_info [simp]: "openable (info m w) q = openable w q"
  and openable_log_error [simp]: "openable (log_error m w) q = openable w q"
  by (simp_all add: openable_def)

lemma openable_put_file: "openable w p \<Longrightarrow> openable (put p (File c) w) q = openable w q"
  by (auto simp: openable_def)

lemma download_item_openable:
  "openable (fst (download_item svc dir item (w, k))) q = openable w q"
  by (simp add: download_item_eq Let_def openable_put_file split: sum.splits)

lemma download_item_count:
  "snd (download_item svc dir item (w, k)) = k + (if completed svc dir w item then 1 else 0)"
  by (simp add: download_item_eq Let_def completed_def split: sum.splits)

lemma download_item_writes:
  "writes (fst (download_item svc dir item (w, k))) =
     writes w @ (if opened dir w item then [entry_path dir item] else [])"
  by (simp add: download_item_eq Let_def opened_def writes_emit split: sum.splits)

lemma download_item_errors:
  "errors_logged (fst (download_item svc dir item (w, k))) =
     errors_logged w @ failures svc dir w [item]"
  by (simp add: download_item_eq Let_def failure_def errors_logged_emit errors_logged_log_error
      split: sum.splits)

lemma completed_iff:
  "completed svc dir w item \<longleftrightarrow> \<not> native item \<and> failure svc dir w item = None"
  by (simp add: completed_def failure_def split: sum.splits)

lemma completed_cong:
  "(\<And>q. openable w' q = openable w q) \<Longrightarrow> completed svc dir w' = completed svc dir w"
  by (rule ext) (simp add: completed_def)

lemma opened_cong:
  "(\<And>q. openable w' q = openable w q) \<Longrightarrow> opened dir w' = opened dir w"
  by (rule ext) (simp add: opened_def)

lemma failure_cong:
  "(\<And>q. openable w' q = openable w q) \<Longrightarrow> failure svc dir w' = failure svc dir w"
  by (rule ext) (simp add: failure_def)

lemma failures_cong:
  assumes "\<And>q. openable w' q = openable w q"
  shows "failures svc dir w' items = failures svc dir w items"
  by (induction items) (simp_all add: failure_cong [of w' w, OF assms] split: option.splits)

lemma download_items_effect:
  "download_items svc dir items (w, k) = (w', k') \<Longrightarrow>
     k' = k + length (filter (completed svc dir w) items) \<and>
     writes w' = writes w @ map (entry_path dir) (filter (opened dir w) items) \<and>
     errors_logged w' = errors_logged w @ failures svc dir w items \<and>
     (\<forall>q. openable w' q = openable w q)"
proof (induction items arbitrary: w k)
  case Nil
  then show ?case by simp
next
  case (Cons item items)
  obtain w1 k1 where s: "download_item svc dir item (w, k) = (w1, k1)"
    by (cases "download_item svc dir item (w, k)")
  have o: "\<And>q. openable w1 q = openable w q"
    using download_item_openable [of svc dir item w k] s by simp
  have k1: "k1 = k + (if completed svc dir w item then 1 else 0)"
    using download_item_count [of svc dir item w k] s by simp
  have w1: "writes w1 = writes w @ (if opened dir w item then [entry_path dir item] else [])"
    using download_item_writes [of svc dir item w k] s by simp
  have e1: "errors_logged w1 = errors_logged w @ failures svc dir w [item]"
    using download_item_errors [of svc dir item w k] s by simp
  from Cons.prems s have "download_items svc dir items (w1, k1) = (w', k')" by simp
  from Cons.IH [OF this]
  have "k' = k1 + length (filter (completed svc dir w) items)"
    and "writes w' = writes w1 @ map (entry_path dir) (filter (opened dir w) items)"
    and "errors_logged w' = errors_logged w1 @ failures svc dir w items"
    and "\<forall>q. openable w' q = openable w1 q"
    by (simp_all add: completed_cong [of w1 w, OF o] opened_cong [of w1 w, OF o]
          failures_cong [of w1 w, OF o])
  then show ?case
    using failures_append [of svc dir w "[item]" items]
    by (simp add: k1 w1 e1 o del: failures_append)
qed

subsection \<open>One turn of the loop, and the loop\<close>

lemma fetch_page_error:
  "files_list svc n t = Inl e \<Longrightarrow>
   fetch_page svc dir n t (w, k) = Break (log_error (ErrorFetchingFiles e) (info FetchingFileList w), k)"
  by (simp add: fetch_page_def)

lemma fetch_page_empty:
  "files_list svc n t = Inr results \<Longrightarrow> items_of results = [] \<Longrightarrow>
   fetch_page svc dir n t (w, k) = Break (info NoFilesFound (info FetchingFileList w), k)"
  by (simp add: fetch_page_def items_of_def)

lemma fetch_page_last:
  "files_list svc n t = Inr results \<Longrightarrow> items_of results \<noteq> [] \<Longrightarrow>
   \<not> truthy (nextPageToken results) \<Longrightarrow>
   fetch_page svc dir n t (w, k) =
     Break (download_items svc dir (items_of results)
              (info (FoundFiles (length (items_of results))) (info FetchingFileList w), k))"
  by (simp add: fetch_page_def items_of_def Let_def)

lemma fetch_page_more:
  "files_list svc n t = Inr results \<Longrightarrow> items_of results \<noteq> [] \<Longrightarrow>
   truthy (nextPageToken results) \<Longrightarrow>
   fetch_page svc dir n t (w, k) =
     Continue (nextPageToken results)
       (download_items svc dir (items_of results)
          (info (FoundFiles (length (items_of results))) (info FetchingFileList w), k))"
  by (simp add: fetch_page_def items_of_def Let_def)

lemma reaches_loop:
  "reaches svc dir n s s' \<Longrightarrow>
   fetch_loop svc dir n (fst s) (snd s) = fetch_loop svc dir n (fst s') (snd s')"
proof (induction rule: reaches.induct)
  case (stay s)
  show ?case by simp
next
  case (turn t st t2 st2 s')
  have "fetch_loop svc dir n t st = fetch_loop svc dir n t2 st2"
    by (subst fetch_loop.simps) (simp add: turn.hyps(1))
  with turn.IH show ?case by simp
qed

lemma visits_reaches:
  "visits svc n t items t' \<Longrightarrow>
   \<exists>w'. reaches svc dir n (t, w, k) (t', w', k + length (filter (completed svc dir w) items)) \<and>
        writes w' = writes w @ map (entry_path dir) (filter (opened dir w) items) \<and>
        errors_logged w' = errors_logged w @ failures svc dir w items \<and>
        (\<forall>q. openable w' q = openable w q)"
proof (induction arbitrary: w k rule: visits.induct)
  case (here t)
  show ?case by (auto intro: reaches.stay)
next
  case (page t results rest t')
  let ?w0 = "info (FoundFiles (length (items_of results))) (info FetchingFileList w)"
  obtain w1 k1 where d: "download_items svc dir (items_of results) (?w0, k) = (w1, k1)"
    by (cases "download_items svc dir (items_of results) (?w0, k)")
  have o0: "\<And>q. openable ?w0 q = openable w q" by simp
  from download_items_effect [OF d]
  have k1: "k1 = k + length (filter (completed svc dir w) (items_of results))"
    and w1: "writes w1 = writes w @ map (entry_path dir) (filter (opened dir w) (items_of results))"
    and e1: "errors_logged w1 = errors_logged w @ failures svc dir w (items_of results)"
    and o1: "\<And>q. openable w1 q = openable w q"
    by (simp_all add: completed_cong [of ?w0 w, OF o0] opened_cong [of ?w0 w, OF o0]
          failures_cong [of ?w0 w, OF o0])
  have step: "fetch_page svc dir n t (w, k) = Continue (nextPageToken results) (w1, k1)"
    using fetch_page_more [OF page.hyps(1-3)] d by simp
  from page.IH [of w1 k1] obtain w' where
    r: "reaches svc dir n (nextPageToken results, w1, k1)
          (t', w', k1 + length (filter (completed svc dir w1) rest))"
    and ww: "writes w' = writes w1 @ map (entry_path dir) (filter (opened dir w1) rest)"
    and ee: "errors_logged w' = errors_logged w1 @ failures svc dir w1 rest"
    and oo: "\<forall>q. openable w' q = openable w1 q"
    by blast
  have "reaches svc dir n (t, w, k) (t', w', k1 + length (filter (completed svc dir w1) rest))"
    using reaches.turn [OF step r] .
  then have "reaches svc dir n (t, w, k)
      (t', w', k + length (filter (completed svc dir w) (items_of results @ rest)))"
    by (simp add: k1 completed_cong [of w1 w, OF o1] add.assoc)
  moreover have "writes w' =
      writes w @ map (entry_path dir) (filter (opened dir w) (items_of results @ rest))"
    using ww by (simp add: w1 opened_cong [of w1 w, OF o1])
  moreover have "errors_logged w' = errors_logged w @ failures svc dir w (items_of results @ rest)"
    using ee by (simp add: e1 failures_cong [of w1 w, OF o1])
  moreover have "\<forall>q. openable w' q = openable w q"
    using oo o1 by simp
  ultimately show ?case by blast
qed

lemma fetch_loop_break:
  "fetch_page svc dir n t st = Break r \<Longrightarrow> fetch_loop svc dir n t st = Some r"
  by (subst fetch_loop.simps) simp

lemma last_page_loop:
  assumes "last_page svc n t = Some lst"
  shows "\<exists>w'. fetch_loop svc dir n t (w, k) =
                 Some (w', k + length (filter (completed svc dir w) lst)) \<and>
               writes w' = writes w @ map (entry_path dir) (filter (opened dir w) lst) \<and>
               errors_logged w' = errors_logged w @ failures svc dir w lst"
proof (cases "files_list svc n t")
  case (Inl e)
  with assms have "lst = []" by (simp add: last_page_def)
  then show ?thesis
    using fetch_loop_break [OF fetch_page_error [OF Inl]]
    by (simp add: errors_logged_log_error)
next
  case (Inr results)
  show ?thesis
  proof (cases "items_of results = []")
    case True
    with assms Inr have "lst = []" by (simp add: last_page_def)
    then show ?thesis
      using fetch_loop_break [OF fetch_page_empty [OF Inr True]] by simp
  next
    case False
    with assms Inr have tok: "\<not> truthy (nextPageToken results)" and l: "lst = items_of results"
      by (simp_all add: last_page_def split: if_splits)
    let ?w0 = "info (FoundFiles (length (items_of results))) (info FetchingFileList w)"
    obtain w1 k1 where d: "download_items svc dir (items_of results) (?w0, k) = (w1, k1)"
      by (cases "download_items svc dir (items_of results) (?w0, k)")
    have o0: "\<And>q. openable ?w0 q = openable w q" by simp
    from download_items_effect [OF d]
    have "k1 = k + length (filter (completed svc dir w) lst)"
      and "writes w1 = writes w @ map (entry_path dir) (filter (opened dir w) lst)"
      and "errors_logged w1 = errors_logged w @ failures svc dir w lst"
      by (simp_all add: l completed_cong [of ?w0 w, OF o0] opened_cong [of ?w0 w, OF o0]
            failures_cong [of ?w0 w, OF o0])
    moreover have "fetch_loop svc dir n t (w, k) = Some (w1, k1)"
      using fetch_loop_break [OF fetch_page_last [OF Inr False tok]] d by simp
    ultimately show ?thesis by simp
  qed
qed

lemma run_effect:
  assumes "visits svc n t pre t'" and "last_page svc n t' = Some lst"
  shows "\<exists>w'. fetch_loop svc dir n t (w, k) =
                 Some (w', k + length (filter (completed svc dir w) (pre @ lst))) \<and>
               writes w' = writes w @ map (entry_path dir) (filter (opened dir w) (pre @ lst)) \<and>
               errors_logged w' = errors_logged w @ failures svc dir w (pre @ lst)"
proof -
  from visits_reaches [OF assms(1), of dir w k] obtain w1 where
    r: "reaches svc dir n (t, w, k) (t', w1, k + length (filter (completed svc dir w) pre))"
    and ww: "writes w1 = writes w @ map (entry_path dir) (filter (opened dir w) pre)"
    and ee: "errors_logged w1 = errors_logged w @ failures svc dir w pre"
    and o: "\<And>q. openable w1 q = openable w q"
    by blast
  from last_page_loop [OF assms(2), of dir w1 "k + length (filter (completed svc dir w) pre)"]
  obtain w' where
    l: "fetch_loop svc dir n t' (w1, k + length (filter (completed svc dir w) pre)) =
          Some (w', k + length (filter (completed svc dir w) pre) +
                    length (filter (completed svc dir w1) lst))"
    and lw: "writes w' = writes w1 @ map (entry_path dir) (filter (opened dir w1) lst)"
    and le: "errors_logged w' = errors_logged w1 @ failures svc dir w1 lst"
    by blast
  have "fetch_loop svc dir n t (w, k) =
          Some (w', k + length (filter (completed svc dir w) (pre @ lst)))"
    using reaches_loop [OF r] l by (simp add: completed_cong [of w1 w, OF o] add.assoc)
  moreover have "writes w' =
      writes w @ map (entry_path dir) (filter (opened dir w) (pre @ lst))"
    using lw ww by (simp add: opened_cong [of w1 w, OF o])
  moreover have "errors_logged w' = errors_logged w @ failures svc dir w (pre @ lst)"
    using le ee by (simp add: failures_cong [of w1 w, OF o])
  ultimately show ?thesis by blast
qed

lemma makedirs_trace: "makedirs p w = Inr w1 \<Longrightarrow> trace w1 = trace w"
  by (auto simp: makedirs_def split: option.splits node.splits if_splits)

lemma makedirs_writes: "makedirs p w = Inr w1 \<Longrightarrow> writes w1 = writes w"
  by (simp add: writes_def makedirs_trace)

lemma makedirs_errors: "makedirs p w = Inr w1 \<Longrightarrow> errors_logged w1 = errors_logged w"
  by (simp add: errors_logged_def makedirs_trace)

subsection \<open>A run that returns has gone through a listing that ends\<close>

lemma fetch_page_Break:
  "fetch_page svc dir n t st = Break r \<Longrightarrow> \<exists>lst. last_page svc n t = Some lst"
  by (cases st) (auto simp: fetch_page_def last_page_def items_of_def Let_def
        split: sum.splits if_splits option.splits)

lemma fetch_page_Continue:
  "fetch_page svc dir n t st = Continue t2 st2 \<Longrightarrow>
   \<exists>results. files_list svc n t = Inr results \<and> items_of results \<noteq> [] \<and>
             truthy (nextPageToken results) \<and> t2 = nextPageToken results"
  by (cases st) (auto simp: fetch_page_def items_of_def Let_def
        split: sum.splits if_splits option.splits)

lemma fetch_loop_returns:
  assumes "fetch_loop svc dir n t st = Some r"
  shows "\<exists>pre t' lst. visits svc n t pre t' \<and> last_page svc n t' = Some lst"
proof (rule fetch_loop.raw_induct
    [where P = "\<lambda>svc dir n t st r. \<exists>pre t' lst. visits svc n t pre t' \<and> last_page svc n t' = Some lst",
     OF _ assms])
  fix f svc dir n t st r
  assume IH: "\<And>svc dir n t st r. f svc dir n t st = Some r \<Longrightarrow>
      \<exists>pre t' lst. visits svc n t pre t' \<and> last_page svc n t' = Some lst"
    and step: "(case fetch_page svc dir n t st of Break r \<Rightarrow> Some r
               | Continue t2 st2 \<Rightarrow> f svc dir n t2 st2) = Some r"
  show "\<exists>pre t' lst. visits svc n t pre t' \<and> last_page svc n t' = Some lst"
  proof (cases "fetch_page svc dir n t st")
    case (Break r')
    from fetch_page_Break [OF Break] obtain lst where "last_page svc n t = Some lst" ..
    then show ?thesis using visits.here by blast
  next
    case (Continue t2 st2)
    with step have "f svc dir n t2 st2 = Some r" by simp
    from IH [OF this] obtain pre t' lst where
      v: "visits svc n t2 pre t'" and l: "last_page svc n t' = Some lst" by blast
    from fetch_page_Continue [OF Continue] obtain results where
      r: "files_list svc n t = Inr results" "items_of results \<noteq> []"
         "truthy (nextPageToken results)" "t2 = nextPageToken results" by blast
    from visits.page [OF r(1-3)] v r(4) have "visits svc n t (items_of results @ pre) t'"
      by simp
    with l show ?thesis by blast
  qed
qed

subsection \<open>Unfolding the definitions\<close>

lemmas auth_defs = authenticate_def check_creds_def renew_and_save_def renew_def new_flow_def
  save_token_def
  finish_def exists_def pickle_load_def open_wb_def pickle_dump_def truthy_def Let_def

lemmas example_defs = creds_ok_def creds_old_def dumps0_def loads0_def world0_def world_token_def
  world_readonly_def args0_def gone9_def
  doc1_def pic2_def doc3_def txt4_def bin5_def media_of_def drive_def two_pages_def
  second_fails_def first_fails_def empty_second_def google_def

lemmas notion_defs = completed_def opened_def failure_def native_def native_prefix_def openable_def
  entry_path_def path_join_def suffix_to_prefix items_of_def last_page_def

subsection \<open>The refresh branch of authenticate\<close>

lemma authenticate_refresh:
  assumes "fs w tf = Some (File b)" and "loads prov b = Inr (Credential c)"
    and "\<not> valid c" and "expired c" and "truthy (refresh_token c)"
    and "refresh prov c = Inr c'"
  shows "authenticate prov cf tf w =
     (if openable w tf then
        (Inr (build prov c'),
         info AuthenticationSuccessful (info (TokenSaved tf) (put tf (File (dumps prov c'))
           (emit (OpenWrite tf) (emit RefreshCall (info RefreshingToken
             (info (LoadingToken tf) (info StartingAuthentication w))))))))
      else
        (Inl (OSError tf), emit RefreshCall (info RefreshingToken
             (info (LoadingToken tf) (info StartingAuthentication w)))))"
  using assms(2-6)
  by (simp add: authenticate_def check_creds_def exists_def pickle_load_def Let_def assms(1)
      renew_and_save_def renew_def save_token_def open_wb_def pickle_dump_def finish_def
      openable_def put_emit)

section \<open>The claims\<close>

subsection \<open>C1: a failing listing call\<close>

text \<open>
  C1 makes an exception of the first listing call: a failure there would be fatal for
  the process. In the code the first call is inside the same \<open>try\<close> as every later one.
  Here the token is valid, the first call of \<open>files().list\<close> raises, and the process
  exits with code 0 all the same.
\<close>

theorem first_listing_failure_exits_0:
  "files_list (build (google (Inr creds_ok) first_fails) creds_ok) (page_size args0) None =
     Inl (SdkError ''backend error'') \<and>
   map_option fst (main (google (Inr creds_ok) first_fails) args0 (world_token (dumps0 creds_ok))) =
     Some 0"
  by code_simp

text \<open>
  C1, amended: in a run whose authentication succeeds and whose save directory can be
  made, a listing call that raises on any page, the first one too, ends the loop. The
  pages before it have been gone through (\<open>visits\<close>), \<open>download_all_files\<close> returns the
  number of their entries whose transfer completed, the last lines logged are the error
  of the listing call and the total, and the process exits with code 0.
\<close>

theorem listing_error_ends_run_with_exit_0:
  assumes "authenticate prov (credentials a) (token a) w = (Inr svc, w1)"
    and "makedirs (save_dir a) (info (CreatingDirectory (save_dir a)) w1) = Inr w2"
    and "visits svc (page_size a) None items t"
    and "files_list svc (page_size a) t = Inl e"
  shows "\<exists>w3. reaches svc (save_dir a) (page_size a) (None, w2, 0)
                 (t, w3, length (filter (completed svc (save_dir a) w2) items)) \<and>
              download_all_files svc (save_dir a) (page_size a) w1 =
                Some (Inr (length (filter (completed svc (save_dir a) w2) items)),
                      info (TotalDownloaded (length (filter (completed svc (save_dir a) w2) items)))
                        (log_error (ErrorFetchingFiles e) (info FetchingFileList w3))) \<and>
              main prov a w =
                Some (0, info (TotalDownloaded (length (filter (completed svc (save_dir a) w2) items)))
                        (log_error (ErrorFetchingFiles e) (info FetchingFileList w3)))"
proof -
  let ?k = "length (filter (completed svc (save_dir a) w2) items)"
  from visits_reaches [OF assms(3), of "save_dir a" w2 0] obtain w3 where
    r: "reaches svc (save_dir a) (page_size a) (None, w2, 0) (t, w3, ?k)"
    by auto
  have "fetch_loop svc (save_dir a) (page_size a) None (w2, 0) =
          fetch_loop svc (save_dir a) (page_size a) t (w3, ?k)"
    using reaches_loop [OF r] by simp
  also have "\<dots> = Some (log_error (ErrorFetchingFiles e) (info FetchingFileList w3), ?k)"
    by (rule fetch_loop_break [OF fetch_page_error [OF assms(4)]])
  finally have l: "fetch_loop svc (save_dir a) (page_size a) None (w2, 0) =
      Some (log_error (ErrorFetchingFiles e) (info FetchingFileList w3), ?k)" .
  have d: "download_all_files svc (save_dir a) (page_size a) w1 =
      Some (Inr ?k, info (TotalDownloaded ?k)
                      (log_error (ErrorFetchingFiles e) (info FetchingFileList w3)))"
    by (simp add: download_all_files_def Let_def assms(2) l)
  have "main prov a w =
      Some (0, info (TotalDownloaded ?k)
                 (log_error (ErrorFetchingFiles e) (info FetchingFileList w3)))"
    by (simp add: main_def assms(1) d)
  with r d show ?thesis by blast
qed

theorem listing_error_ends_run_with_exit_0_witness:
  "\<exists>w'. download_all_files (drive second_fails creds_ok) ''drive_download'' 1000
           (snd (authenticate (google (Inr creds_ok) second_fails) ''credentials.json''
                   ''token.pkl'' (world_token (dumps0 creds_ok)))) = Some (Inr 1, w') \<and>
         main (google (Inr creds_ok) second_fails) args0 (world_token (dumps0 creds_ok)) =
           Some (0, w')"
proof -
  let ?prov = "google (Inr creds_ok) second_fails"
  let ?svc = "drive second_fails creds_ok"
  let ?w = "world_token (dumps0 creds_ok)"
  let ?w1 = "snd (authenticate ?prov ''credentials.json'' ''token.pkl'' ?w)"
  let ?w2 = "put ''drive_download'' Dir (info (CreatingDirectory ''drive_download'') ?w1)"
  have a: "authenticate ?prov (credentials args0) (token args0) ?w = (Inr ?svc, ?w1)"
    by (simp add: auth_defs example_defs)
  have m: "makedirs (save_dir args0) (info (CreatingDirectory (save_dir args0)) ?w1) = Inr ?w2"
    by (simp add: makedirs_def auth_defs example_defs)
  have "visits ?svc (page_size args0) None
          (items_of \<lparr>files = Some [pic2, bin5], nextPageToken = Some ''p2''\<rparr> @ [])
          (nextPageToken \<lparr>files = Some [pic2, bin5], nextPageToken = Some ''p2''\<rparr>)"
    by (rule visits.page [OF _ _ _ visits.here])
       (simp_all add: drive_def second_fails_def items_of_def truthy_def)
  then have v: "visits ?svc (page_size args0) None [pic2, bin5] (Some ''p2'')"
    by (simp add: items_of_def)
  have e: "files_list ?svc (page_size args0) (Some ''p2'') = Inl (SdkError ''backend error'')"
    by (simp add: drive_def second_fails_def)
  have c: "length (filter (completed ?svc (save_dir args0) ?w2) [pic2, bin5]) = 1"
    by (simp add: notion_defs auth_defs example_defs)
  from listing_error_ends_run_with_exit_0 [OF a m v e] show ?thesis
    unfolding c by (auto simp: args0_def)
qed

subsection \<open>C2: an error while one file is transferred\<close>

text \<open>
  C2: \<open>download_all_files\<close> does not fail on an error of one transfer. For every listing
  that ends (its pages \<open>pre\<close>, then a page \<open>lst\<close> on which the loop stops), once the save
  directory is there, the run returns a count, never an error; the count is the number of
  entries whose transfer completed, and the lines \<open>Failed to download\<close> that the run has
  written with \<open>logger.error\<close> are, in order, one for each entry whose transfer failed,
  with the name of the entry and the error. An entry is completed exactly when it is not
  native and has no failure. Inside a page, an entry whose transfer raised \<open>e\<close> has the
  failure \<open>e\<close>: the step ends with the line \<open>Failed to download\<close> for it as the last
  event of the trace, the count stays and the \<open>for\<close> loop goes on with the entries after
  it; an entry whose transfer returned is completed and adds one to the count. Every run
  that returns has gone through such a listing, and what it returns is that count.
\<close>

theorem per_file_errors_do_not_stop_the_run:
  "(makedirs dir (info (CreatingDirectory dir) w) = Inr w1 \<and> visits svc n None pre t \<and>
    last_page svc n t = Some lst \<longrightarrow>
      (\<exists>w'. download_all_files svc dir n w =
               Some (Inr (length (filter (completed svc dir w1) (pre @ lst))), w') \<and>
             errors_logged w' = errors_logged w @ failures svc dir w1 (pre @ lst))) \<and>
   (completed svc dir w0 item \<longleftrightarrow> \<not> native item \<and> failure svc dir w0 item = None) \<and>
   (\<not> native bad \<and> transfer svc (file_id bad) (entry_path dir bad) w0 = (Inl e, wb) \<longrightarrow>
      \<not> completed svc dir w0 bad \<and>
      failure svc dir w0 bad = Some e \<and>
      trace (fst (download_item svc dir bad (w0, k))) =
        trace wb @ [Error (FailedToDownload (file_name bad) e)] \<and>
      snd (download_item svc dir bad (w0, k)) = k \<and>
      download_items svc dir (bad # rest) (w0, k) =
        download_items svc dir rest (log_error (FailedToDownload (file_name bad) e) wb, k)) \<and>
   (\<not> native good \<and> transfer svc (file_id good) (entry_path dir good) w0 = (Inr u, wg) \<longrightarrow>
      completed svc dir w0 good \<and>
      download_items svc dir (good # rest) (w0, k) =
        download_items svc dir rest (info (Downloaded (file_name good)) wg, k + 1)) \<and>
   (makedirs dir (info (CreatingDirectory dir) w) = Inr w1 \<and>
    download_all_files svc dir n w = Some (r, w2) \<longrightarrow>
      (\<exists>items t' lst'. visits svc n None items t' \<and> last_page svc n t' = Some lst' \<and>
         r = Inr (length (filter (completed svc dir w1) (items @ lst'))) \<and>
         errors_logged w2 = errors_logged w @ failures svc dir w1 (items @ lst')))"
proof (intro conjI impI)
  assume h: "makedirs dir (info (CreatingDirectory dir) w) = Inr w1 \<and> visits svc n None pre t \<and>
    last_page svc n t = Some lst"
  then have m: "makedirs dir (info (CreatingDirectory dir) w) = Inr w1"
    and v: "visits svc n None pre t" and l: "last_page svc n t = Some lst"
    by simp_all
  from run_effect [OF v l, of dir w1 0] obtain w' where
    "fetch_loop svc dir n None (w1, 0) =
       Some (w', length (filter (completed svc dir w1) (pre @ lst)))"
    and "errors_logged w' = errors_logged w1 @ failures svc dir w1 (pre @ lst)"
    by auto
  moreover have "errors_logged w1 = errors_logged w"
    using makedirs_errors [OF m] by simp
  ultimately show "\<exists>w'. download_all_files svc dir n w =
      Some (Inr (length (filter (completed svc dir w1) (pre @ lst))), w') \<and>
      errors_logged w' = errors_logged w @ failures svc dir w1 (pre @ lst)"
    by (simp add: download_all_files_def Let_def m)
next
  show "completed svc dir w0 item \<longleftrightarrow> \<not> native item \<and> failure svc dir w0 item = None"
    by (rule completed_iff)
next
  assume h: "\<not> native bad \<and> transfer svc (file_id bad) (entry_path dir bad) w0 = (Inl e, wb)"
  then show "\<not> completed svc dir w0 bad"
    by (auto simp: completed_def transfer_eq split: sum.splits if_splits)
  from h show "failure svc dir w0 bad = Some e"
    by (auto simp: failure_def transfer_eq split: sum.splits if_splits)
  from h have d: "download_item svc dir bad (w0, k) =
      (log_error (FailedToDownload (file_name bad) e) wb, k)"
    by (simp add: download_item_def native_def entry_path_def)
  show "trace (fst (download_item svc dir bad (w0, k))) =
      trace wb @ [Error (FailedToDownload (file_name bad) e)]"
    by (simp add: d)
  show "snd (download_item svc dir bad (w0, k)) = k"
    by (simp add: d)
  show "download_items svc dir (bad # rest) (w0, k) =
      download_items svc dir rest (log_error (FailedToDownload (file_name bad) e) wb, k)"
    by (simp add: d)
next
  assume h: "\<not> native good \<and> transfer svc (file_id good) (entry_path dir good) w0 = (Inr u, wg)"
  then show "completed svc dir w0 good"
    by (auto simp: completed_def transfer_eq split: sum.splits if_splits)
  from h show "download_items svc dir (good # rest) (w0, k) =
      download_items svc dir rest (info (Downloaded (file_name good)) wg, k + 1)"
    by (simp add: download_item_def native_def entry_path_def)
next
  assume h: "makedirs dir (info (CreatingDirectory dir) w) = Inr w1 \<and>
    download_all_files svc dir n w = Some (r, w2)"
  then have m: "makedirs dir (info (CreatingDirectory dir) w) = Inr w1" by simp
  from h obtain w3 c where f: "fetch_loop svc dir n None (w1, 0) = Some (w3, c)"
    and r: "r = Inr c" and w2: "w2 = info (TotalDownloaded c) w3"
    by (auto simp: download_all_files_def Let_def split: option.splits)
  from fetch_loop_returns [OF f] obtain items t' lst' where
    v: "visits svc n None items t'" and l: "last_page svc n t' = Some lst'"
    by blast
  from run_effect [OF v l, of dir w1 0] f
  have "c = length (filter (completed svc dir w1) (items @ lst'))"
    and "errors_logged w3 = errors_logged w1 @ failures svc dir w1 (items @ lst')"
    by auto
  moreover have "errors_logged w1 = errors_logged w"
    using makedirs_errors [OF m] by simp
  ultimately have "r = Inr (length (filter (completed svc dir w1) (items @ lst')))"
    and "errors_logged w2 = errors_logged w @ failures svc dir w1 (items @ lst')"
    using r w2 by simp_all
  with v l show "\<exists>items t' lst'. visits svc n None items t' \<and> last_page svc n t' = Some lst' \<and>
      r = Inr (length (filter (completed svc dir w1) (items @ lst'))) \<and>
      errors_logged w2 = errors_logged w @ failures svc dir w1 (items @ lst')"
    by blast
qed

theorem per_file_errors_do_not_stop_the_run_witness:
  "(\<exists>w'. download_all_files (drive second_fails creds_ok) ''out'' 1000 world0 = Some (Inr 1, w') \<and>
         errors_logged w' = [(''c.bin'', SdkError ''reset'')]) \<and>
   \<not> completed (drive second_fails creds_ok) ''out'' world0 bin5 \<and>
   trace (fst (download_item (drive second_fails creds_ok) ''out'' bin5 (world0, 0))) =
     [OpenWrite ''out/c.bin'', Error (FailedToDownload ''c.bin'' (SdkError ''reset''))] \<and>
   download_items (drive second_fails creds_ok) ''out'' [bin5] (world0, 0) =
     (log_error (FailedToDownload ''c.bin'' (SdkError ''reset''))
        (emit (OpenWrite ''out/c.bin'') (put ''out/c.bin'' (File ''xy'') world0)), 0) \<and>
   completed (drive second_fails creds_ok) ''out'' world0 pic2 \<and>
   download_items (drive second_fails creds_ok) ''out'' [pic2] (world0, 0) =
     (info (Downloaded ''a.png'')
        (emit (OpenWrite ''out/a.png'') (put ''out/a.png'' (File ''abc'') world0)), 1)"
proof -
  let ?svc = "drive second_fails creds_ok"
  let ?w1 = "put ''out'' Dir (info (CreatingDirectory ''out'') world0)"
  let ?wb = "emit (OpenWrite ''out/c.bin'') (put ''out/c.bin'' (File ''xy'') world0)"
  let ?wg = "emit (OpenWrite ''out/a.png'') (put ''out/a.png'' (File ''abc'') world0)"
  have m: "makedirs ''out'' (info (CreatingDirectory ''out'') world0) = Inr ?w1"
    by (simp add: makedirs_def world0_def)
  have "visits ?svc 1000 None
          (items_of \<lparr>files = Some [pic2, bin5], nextPageToken = Some ''p2''\<rparr> @ [])
          (nextPageToken \<lparr>files = Some [pic2, bin5], nextPageToken = Some ''p2''\<rparr>)"
    by (rule visits.page [OF _ _ _ visits.here])
       (simp_all add: drive_def second_fails_def items_of_def truthy_def)
  then have v: "visits ?svc 1000 None [pic2, bin5] (Some ''p2'')"
    by (simp add: items_of_def)
  have l: "last_page ?svc 1000 (Some ''p2'') = Some []"
    by (simp add: last_page_def drive_def second_fails_def)
  have nb: "\<not> native bin5" and ng: "\<not> native pic2"
    by (simp_all add: native_def native_prefix_def bin5_def pic2_def)
  have tb: "transfer ?svc (file_id bin5) (entry_path ''out'' bin5) world0 = (Inl (SdkError ''reset''), ?wb)"
    by (simp add: transfer_eq notion_defs example_defs)
  have tg: "transfer ?svc (file_id pic2) (entry_path ''out'' pic2) world0 = (Inr (), ?wg)"
    by (simp add: transfer_eq notion_defs example_defs)
  have c: "length (filter (completed ?svc ''out'' ?w1) ([pic2, bin5] @ [])) = 1"
    by (simp add: notion_defs example_defs)
  have f: "failures ?svc ''out'' ?w1 ([pic2, bin5] @ []) = [(''c.bin'', SdkError ''reset'')]"
    by (simp add: notion_defs example_defs)
  have e0: "errors_logged world0 = []"
    by (simp add: errors_logged_def world0_def)
  have tw: "trace world0 = []"
    by (simp add: world0_def)
  have fg: "failure ?svc ''out'' world0 pic2 = None"
    by (simp add: notion_defs example_defs)
  have p: "file_name bin5 = ''c.bin''" "file_name pic2 = ''a.png''"
    by (simp_all add: example_defs)
  have "\<exists>w'. download_all_files ?svc ''out'' 1000 world0 = Some (Inr 1, w') \<and>
      errors_logged w' = [(''c.bin'', SdkError ''reset'')]"
    using per_file_errors_do_not_stop_the_run
      [of "''out''" world0 ?w1 ?svc 1000 "[pic2, bin5]" "Some ''p2''" "[]", THEN conjunct1]
      m v l unfolding c f e0 by simp
  then obtain w' where d: "download_all_files ?svc ''out'' 1000 world0 = Some (Inr 1, w')"
    and el: "errors_logged w' = [(''c.bin'', SdkError ''reset'')]" by blast
  from per_file_errors_do_not_stop_the_run
    [of "''out''" world0 ?w1 ?svc 1000 "[pic2, bin5]" "Some ''p2''" "[]" world0 pic2 bin5
        "SdkError ''reset''" ?wb 0 "[]" pic2 "()" ?wg "Inr 1" w']
  show ?thesis
    using m v l nb ng tb tg d el tw fg unfolding c f e0 p download_items.simps(1) by simp
qed

subsection \<open>C3: a token file that does not unpickle\<close>

text \<open>
  C3 says that a token file which fails to deserialize makes \<open>authenticate\<close> fall through
  to a new authentication. The code has no handler around \<open>pickle.load\<close>. Here
  \<open>pickle.load\<close> rejects the bytes of the token file, the credentials file is there
  and the interactive flow would hand out a credential, and \<open>authenticate\<close> raises the
  error of \<open>pickle.load\<close>.
\<close>

theorem corrupt_token_not_recovered:
  "fs (world_token ''junk'') ''token.pkl'' = Some (File ''junk'') \<and>
   loads (google (Inr creds_ok) two_pages) ''junk'' = Inl UnpicklingError \<and>
   exists ''credentials.json'' (world_token ''junk'') \<and>
   run_flow (google (Inr creds_ok) two_pages) = Inr creds_ok \<and>
   fst (authenticate (google (Inr creds_ok) two_pages) ''credentials.json'' ''token.pkl''
          (world_token ''junk'')) = Inl UnpicklingError"
  by (simp add: auth_defs example_defs)

text \<open>
  C3, amended: when the token file exists and \<open>pickle.load\<close> raises on its content,
  \<open>authenticate\<close> raises that error to its caller after two log lines: no refresh, no
  interactive flow, nothing written. \<open>main\<close> logs the failure and the process exits with
  code 1. Content on which \<open>pickle.load\<close> does not raise is no deserialization failure:
  when it unpickles to a false object (the bytes \<open>N.\<close> give \<open>None\<close>), \<open>authenticate\<close>
  goes on as without a token file, to the interactive branch, and with the credentials
  file there, a flow that hands out a credential and a token file that can be written,
  it returns a client and the token file holds the new credential.
\<close>

theorem corrupt_token_is_fatal:
  "(fs w (token a) = Some (File b) \<and> loads prov b = Inl e \<longrightarrow>
      authenticate prov (credentials a) (token a) w =
        (Inl e, info (LoadingToken (token a)) (info StartingAuthentication w)) \<and>
      main prov a w =
        Some (1, log_error (ProgramFailed e)
                   (info (LoadingToken (token a)) (info StartingAuthentication w)))) \<and>
   (fs w (token a) = Some (File b) \<and> loads prov b = Inr Falsy \<and>
    exists (credentials a) w \<and> run_flow prov = Inr c \<and> openable w (token a) \<longrightarrow>
      fst (authenticate prov (credentials a) (token a) w) = Inr (build prov c) \<and>
      FlowRun \<in> set (new_events w (snd (authenticate prov (credentials a) (token a) w))) \<and>
      fs (snd (authenticate prov (credentials a) (token a) w)) =
        (fs w)(token a \<mapsto> File (dumps prov c)))"
proof (intro conjI impI)
  assume h: "fs w (token a) = Some (File b) \<and> loads prov b = Inl e"
  then show a: "authenticate prov (credentials a) (token a) w =
      (Inl e, info (LoadingToken (token a)) (info StartingAuthentication w))"
    by (simp add: authenticate_def exists_def pickle_load_def Let_def)
  show "main prov a w = Some (1, log_error (ProgramFailed e)
      (info (LoadingToken (token a)) (info StartingAuthentication w)))"
    by (simp add: main_def a)
next
  assume h: "fs w (token a) = Some (File b) \<and> loads prov b = Inr Falsy \<and>
    exists (credentials a) w \<and> run_flow prov = Inr c \<and> openable w (token a)"
  then have a: "authenticate prov (credentials a) (token a) w =
      (Inr (build prov c),
       info AuthenticationSuccessful (info (TokenSaved (token a))
         (put (token a) (File (dumps prov c)) (emit (OpenWrite (token a))
           (emit FlowRun (info InitiatingFlow
             (info (LoadingToken (token a)) (info StartingAuthentication w))))))))"
    by (simp add: auth_defs openable_def put_emit)
  show "fst (authenticate prov (credentials a) (token a) w) = Inr (build prov c)"
    by (simp add: a)
  show "FlowRun \<in> set (new_events w (snd (authenticate prov (credentials a) (token a) w)))"
    by (simp add: a new_events_def)
  show "fs (snd (authenticate prov (credentials a) (token a) w)) =
      (fs w)(token a \<mapsto> File (dumps prov c))"
    by (simp add: a)
qed

theorem corrupt_token_is_fatal_witness:
  "map_option fst (main (google (Inr creds_ok) two_pages) args0 (world_token ''junk'')) = Some 1 \<and>
   fst (authenticate (google (Inr creds_ok) two_pages) ''credentials.json'' ''token.pkl''
          (world_token ''N.'')) = Inr (drive two_pages creds_ok) \<and>
   fs (snd (authenticate (google (Inr creds_ok) two_pages) ''credentials.json'' ''token.pkl''
          (world_token ''N.''))) ''token.pkl'' = Some (File (dumps0 creds_ok))"
proof -
  let ?prov = "google (Inr creds_ok) two_pages"
  have h: "fs (world_token ''junk'') (token args0) = Some (File ''junk'') \<and>
      loads ?prov ''junk'' = Inl UnpicklingError"
    by (simp add: example_defs)
  have g: "fs (world_token ''N.'') (token args0) = Some (File ''N.'') \<and>
      loads ?prov ''N.'' = Inr Falsy \<and> exists (credentials args0) (world_token ''N.'') \<and>
      run_flow ?prov = Inr creds_ok \<and> openable (world_token ''N.'') (token args0)"
    by (simp add: example_defs exists_def openable_def)
  have p: "credentials args0 = ''credentials.json''" "token args0 = ''token.pkl''"
    "build ?prov creds_ok = drive two_pages creds_ok" "dumps ?prov creds_ok = dumps0 creds_ok"
    by (simp_all add: args0_def google_def)
  have "map_option fst (main ?prov args0 (world_token ''junk'')) = Some 1"
    using corrupt_token_is_fatal
      [of "world_token ''junk''" args0 "''junk''" ?prov UnpicklingError, THEN conjunct1] h
    by simp
  moreover have "fst (authenticate ?prov ''credentials.json'' ''token.pkl'' (world_token ''N.'')) =
      Inr (drive two_pages creds_ok) \<and>
    fs (snd (authenticate ?prov ''credentials.json'' ''token.pkl'' (world_token ''N.'')))
      ''token.pkl'' = Some (File (dumps0 creds_ok))"
    using corrupt_token_is_fatal
      [of "world_token ''N.''" args0 "''N.''" ?prov _ creds_ok, THEN conjunct2] g
    unfolding p by simp
  ultimately show ?thesis by blast
qed

subsection \<open>C4: a refresh that the provider rejects\<close>

text \<open>
  C4 says that a rejected refresh makes \<open>authenticate\<close> fall back to the interactive
  flow. The code calls \<open>creds.refresh\<close> without a handler. Here the cached credential
  is expired with a refresh token, the provider rejects the refresh, the credentials file
  is there and the flow would succeed: \<open>authenticate\<close> raises the error of the refresh,
  and the trace shows the refresh call and no flow.
\<close>

theorem rejected_refresh_not_recovered:
  "fs (world_token (dumps0 creds_old)) ''token.pkl'' = Some (File (dumps0 creds_old)) \<and>
   loads (google (Inl (SdkError ''invalid_grant'')) two_pages) (dumps0 creds_old) =
     Inr (Credential creds_old) \<and>
   expired creds_old \<and> truthy (refresh_token creds_old) \<and>
   refresh (google (Inl (SdkError ''invalid_grant'')) two_pages) creds_old =
     Inl (SdkError ''invalid_grant'') \<and>
   exists ''credentials.json'' (world_token (dumps0 creds_old)) \<and>
   run_flow (google (Inl (SdkError ''invalid_grant'')) two_pages) = Inr creds_ok \<and>
   authenticate (google (Inl (SdkError ''invalid_grant'')) two_pages) ''credentials.json''
      ''token.pkl'' (world_token (dumps0 creds_old)) =
     (Inl (SdkError ''invalid_grant''),
      emit RefreshCall (info RefreshingToken (info (LoadingToken ''token.pkl'')
        (info StartingAuthentication (world_token (dumps0 creds_old))))))"
  by (simp add: auth_defs example_defs)

text \<open>
  C4, amended: when the cached credential is not valid, is expired and holds a refresh
  token, and the provider rejects the refresh, \<open>authenticate\<close> raises the error of the
  refresh to its caller: the interactive flow does not run and the token file is not
  written. \<open>main\<close> logs the failure and the process exits with code 1.
\<close>

theorem rejected_refresh_is_fatal:
  assumes "fs w (token a) = Some (File b)" and "loads prov b = Inr (Credential c)"
    and "\<not> valid c" and "expired c" and "truthy (refresh_token c)"
    and "refresh prov c = Inl e"
  shows "authenticate prov (credentials a) (token a) w =
           (Inl e, emit RefreshCall (info RefreshingToken
                     (info (LoadingToken (token a)) (info StartingAuthentication w)))) \<and>
         main prov a w =
           Some (1, log_error (ProgramFailed e) (emit RefreshCall (info RefreshingToken
                     (info (LoadingToken (token a)) (info StartingAuthentication w)))))"
proof -
  have "authenticate prov (credentials a) (token a) w =
      (Inl e, emit RefreshCall (info RefreshingToken
                (info (LoadingToken (token a)) (info StartingAuthentication w))))"
    using assms(2-6)
    by (simp add: authenticate_def check_creds_def exists_def pickle_load_def Let_def assms(1)
                  renew_and_save_def renew_def)
  then show ?thesis by (simp add: main_def)
qed

theorem rejected_refresh_is_fatal_witness:
  "map_option fst (main (google (Inl (SdkError ''invalid_grant'')) two_pages) args0
      (world_token (dumps0 creds_old))) = Some 1"
proof -
  have h: "fs (world_token (dumps0 creds_old)) (token args0) = Some (File (dumps0 creds_old))"
    "loads (google (Inl (SdkError ''invalid_grant'')) two_pages) (dumps0 creds_old) =
       Inr (Credential creds_old)"
    "\<not> valid creds_old" "expired creds_old" "truthy (refresh_token creds_old)"
    "refresh (google (Inl (SdkError ''invalid_grant'')) two_pages) creds_old =
       Inl (SdkError ''invalid_grant'')"
    by (simp_all add: example_defs truthy_def)
  from rejected_refresh_is_fatal [OF h] show ?thesis by simp
qed

subsection \<open>C5: entries of a Google-native type\<close>

text \<open>
  C5: an entry whose \<open>mimeType\<close> starts with \<open>application/vnd.google-apps\<close> is
  skipped. The step of the \<open>for\<close> loop on such an entry only logs the skip: the files on
  disk, the list of files opened for writing and the count are as before. Over a whole
  run, the files opened for writing are those of entries that are not native, and only
  such entries are counted.
\<close>

theorem native_entries_are_skipped:
  "(native item \<longrightarrow>
      download_item svc dir item (w0, k) = (info (SkippingGoogleDocs (file_name item)) w0, k) \<and>
      fs (fst (download_item svc dir item (w0, k))) = fs w0 \<and>
      writes (fst (download_item svc dir item (w0, k))) = writes w0) \<and>
   (makedirs dir (info (CreatingDirectory dir) w) = Inr w1 \<and> visits svc n None pre t \<and>
    last_page svc n t = Some lst \<longrightarrow>
      (\<exists>w'. download_all_files svc dir n w =
               Some (Inr (length (filter (\<lambda>i. \<not> native i \<and> completed svc dir w1 i) (pre @ lst))), w') \<and>
             writes w' = writes w @
               map (entry_path dir) (filter (\<lambda>i. \<not> native i \<and> opened dir w1 i) (pre @ lst))))"
proof (intro conjI impI)
  assume n: "native item"
  then show i: "download_item svc dir item (w0, k) = (info (SkippingGoogleDocs (file_name item)) w0, k)"
    by (simp add: download_item_eq)
  show "fs (fst (download_item svc dir item (w0, k))) = fs w0"
    by (simp add: i)
  show "writes (fst (download_item svc dir item (w0, k))) = writes w0"
    by (simp add: i)
next
  assume h: "makedirs dir (info (CreatingDirectory dir) w) = Inr w1 \<and> visits svc n None pre t \<and>
    last_page svc n t = Some lst"
  then have m: "makedirs dir (info (CreatingDirectory dir) w) = Inr w1"
    and v: "visits svc n None pre t" and l: "last_page svc n t = Some lst"
    by simp_all
  have c: "(\<lambda>i. \<not> native i \<and> completed svc dir w1 i) = completed svc dir w1"
    by (rule ext) (auto simp: completed_def)
  have ob: "(\<lambda>i. \<not> native i \<and> opened dir w1 i) = opened dir w1"
    by (rule ext) (auto simp: opened_def)
  from run_effect [OF v l, of dir w1 0] obtain w2 where
    f: "fetch_loop svc dir n None (w1, 0) =
       Some (w2, length (filter (completed svc dir w1) (pre @ lst)))"
    and ww: "writes w2 = writes w1 @ map (entry_path dir) (filter (opened dir w1) (pre @ lst))"
    by auto
  have "writes w1 = writes w"
    using makedirs_writes [OF m] by simp
  with f ww show "\<exists>w'. download_all_files svc dir n w =
      Some (Inr (length (filter (\<lambda>i. \<not> native i \<and> completed svc dir w1 i) (pre @ lst))), w') \<and>
      writes w' = writes w @
        map (entry_path dir) (filter (\<lambda>i. \<not> native i \<and> opened dir w1 i) (pre @ lst))"
    unfolding c ob by (simp add: download_all_files_def Let_def m)
qed

theorem native_entries_are_skipped_witness:
  "native doc1 \<and> fs (fst (download_item (drive two_pages creds_ok) ''out'' doc1 (world0, 0))) = fs world0 \<and>
   (\<exists>w'. download_all_files (drive two_pages creds_ok) ''out'' 1000 world0 = Some (Inr 2, w') \<and>
         writes w' = [''out/a.png'', ''out/b.txt''])"
proof -
  let ?svc = "drive two_pages creds_ok"
  let ?w1 = "put ''out'' Dir (info (CreatingDirectory ''out'') world0)"
  have n: "native doc1"
    by (simp add: native_def native_prefix_def doc1_def)
  have m: "makedirs ''out'' (info (CreatingDirectory ''out'') world0) = Inr ?w1"
    by (simp add: makedirs_def world0_def)
  have "visits ?svc 1000 None
          (items_of \<lparr>files = Some [doc1, pic2], nextPageToken = Some ''p2''\<rparr> @ [])
          (nextPageToken \<lparr>files = Some [doc1, pic2], nextPageToken = Some ''p2''\<rparr>)"
    by (rule visits.page [OF _ _ _ visits.here])
       (simp_all add: drive_def two_pages_def items_of_def truthy_def)
  then have v: "visits ?svc 1000 None [doc1, pic2] (Some ''p2'')"
    by (simp add: items_of_def)
  have l: "last_page ?svc 1000 (Some ''p2'') = Some [doc3, txt4]"
    by (simp add: last_page_def drive_def two_pages_def items_of_def truthy_def)
  have c: "filter (\<lambda>i. \<not> native i \<and> completed ?svc ''out'' ?w1 i) ([doc1, pic2] @ [doc3, txt4]) = [pic2, txt4]"
    by (simp add: notion_defs example_defs)
  have ob: "filter (\<lambda>i. \<not> native i \<and> opened ''out'' ?w1 i) ([doc1, pic2] @ [doc3, txt4]) = [pic2, txt4]"
    by (simp add: notion_defs example_defs)
  have w: "writes world0 = []"
    by (simp add: writes_def world0_def)
  have p: "map (entry_path ''out'') [pic2, txt4] = [''out/a.png'', ''out/b.txt'']"
    by (simp add: notion_defs example_defs)
  from native_entries_are_skipped
    [of doc1 ?svc "''out''" world0 0 world0 ?w1 1000 "[doc1, pic2]" "Some ''p2''" "[doc3, txt4]"]
  show ?thesis
    using n m v l unfolding c ob w p by (simp add: numeral_2_eq_2)
qed

subsection \<open>C6: what a failed transfer leaves on disk\<close>

text \<open>
  C6 says that an entry whose transfer fails leaves no file of its name. The code opens
  the file before the first chunk is asked for and does not remove it when a chunk fails.
  Here the download of \<open>c.bin\<close> breaks after its first chunk: there was no file at its
  path before, and afterwards there is one holding that chunk.
\<close>

theorem failed_transfer_leaves_partial_file:
  "\<not> native bin5 \<and>
   fst (transfer (drive two_pages creds_ok) (file_id bin5) (entry_path ''out'' bin5) world0) =
     Inl (SdkError ''reset'') \<and>
   fs world0 (entry_path ''out'' bin5) = None \<and>
   fs (fst (download_item (drive two_pages creds_ok) ''out'' bin5 (world0, 0)))
      (entry_path ''out'' bin5) = Some (File ''xy'')"
  by (simp add: download_item_eq transfer_eq notion_defs example_defs)

text \<open>
  C6, amended: a skipped entry leaves the files on disk and the count as they were. So
  does an entry whose file cannot be opened for writing. Every other failure comes after
  the file was opened, a request that the provider refuses included (the request is sent
  by the first \<open>next_chunk\<close>): such an entry leaves, at the path of its display name in
  the save directory, a file holding the bytes received before the failure, none for a
  refused request; every other path and the count are as they were.
\<close>

theorem skipped_or_failed_entry_on_disk:
  "(native item \<longrightarrow>
      fs (fst (download_item svc dir item (w, k))) = fs w \<and>
      snd (download_item svc dir item (w, k)) = k) \<and>
   (\<not> native item \<and> \<not> openable w (entry_path dir item) \<longrightarrow>
      transfer svc (file_id item) (entry_path dir item) w =
        (Inl (OSError (entry_path dir item)), w) \<and>
      fs (fst (download_item svc dir item (w, k))) = fs w \<and>
      snd (download_item svc dir item (w, k)) = k) \<and>
   (\<not> native item \<and> openable w (entry_path dir item) \<and>
    transfer svc (file_id item) (entry_path dir item) w = (Inl e, w1) \<longrightarrow>
      fst (run_media (get_media svc (file_id item))) = Inl e \<and>
      fs (fst (download_item svc dir item (w, k))) =
        (fs w)(entry_path dir item \<mapsto> File (snd (run_media (get_media svc (file_id item))))) \<and>
      snd (download_item svc dir item (w, k)) = k)"
proof (intro conjI impI)
  assume "native item"
  then show "fs (fst (download_item svc dir item (w, k))) = fs w"
    and "snd (download_item svc dir item (w, k)) = k"
    by (simp_all add: download_item_eq)
next
  assume h: "\<not> native item \<and> \<not> openable w (entry_path dir item)"
  then show "transfer svc (file_id item) (entry_path dir item) w =
      (Inl (OSError (entry_path dir item)), w)"
    by (simp add: transfer_eq)
  from h show "fs (fst (download_item svc dir item (w, k))) = fs w"
    and "snd (download_item svc dir item (w, k)) = k"
    by (simp_all add: download_item_eq)
next
  assume h: "\<not> native item \<and> openable w (entry_path dir item) \<and>
    transfer svc (file_id item) (entry_path dir item) w = (Inl e, w1)"
  then show r: "fst (run_media (get_media svc (file_id item))) = Inl e"
    by (auto simp: transfer_eq)
  from h show "fs (fst (download_item svc dir item (w, k))) =
      (fs w)(entry_path dir item \<mapsto> File (snd (run_media (get_media svc (file_id item)))))"
    by (simp add: download_item_eq Let_def r)
  from h show "snd (download_item svc dir item (w, k)) = k"
    by (simp add: download_item_eq Let_def r)
qed

theorem skipped_or_failed_entry_on_disk_witness:
  "fs (fst (download_item (drive two_pages creds_ok) ''out'' doc1 (world0, 0))) = fs world0 \<and>
   fs (fst (download_item (drive two_pages creds_ok) ''out'' pic2
              (put ''out/a.png'' Dir world0, 0))) = fs (put ''out/a.png'' Dir world0) \<and>
   fs (fst (download_item (drive two_pages creds_ok) ''out'' bin5 (world0, 0))) =
     (fs world0)(''out/c.bin'' \<mapsto> File ''xy'') \<and>
   fs (fst (download_item (drive two_pages creds_ok) ''out'' gone9 (world0, 0))) =
     (fs world0)(''out/gone'' \<mapsto> File [])"
proof -
  let ?svc = "drive two_pages creds_ok"
  let ?wd = "put ''out/a.png'' Dir world0"
  let ?w5 = "emit (OpenWrite ''out/c.bin'') (put ''out/c.bin'' (File ''xy'') world0)"
  let ?w9 = "emit (OpenWrite ''out/gone'') (put ''out/gone'' (File []) world0)"
  have n: "native doc1" "\<not> native pic2" "\<not> native bin5" "\<not> native gone9"
    by (simp_all add: native_def native_prefix_def example_defs)
  have o2: "\<not> openable ?wd (entry_path ''out'' pic2)"
    by (simp add: notion_defs example_defs)
  have o5: "openable world0 (entry_path ''out'' bin5)"
    and o9: "openable world0 (entry_path ''out'' gone9)"
    by (simp_all add: notion_defs example_defs)
  have t5: "transfer ?svc (file_id bin5) (entry_path ''out'' bin5) world0 =
      (Inl (SdkError ''reset''), ?w5)"
    by (simp add: transfer_eq notion_defs example_defs)
  have t9: "transfer ?svc (file_id gone9) (entry_path ''out'' gone9) world0 =
      (Inl (SdkError ''not found''), ?w9)"
    by (simp add: transfer_eq notion_defs example_defs)
  have m: "snd (run_media (get_media ?svc (file_id bin5))) = ''xy''"
    "snd (run_media (get_media ?svc (file_id gone9))) = []"
    "entry_path ''out'' bin5 = ''out/c.bin''" "entry_path ''out'' gone9 = ''out/gone''"
    by (simp_all add: notion_defs example_defs)
  have "fs (fst (download_item ?svc ''out'' doc1 (world0, 0))) = fs world0"
    using skipped_or_failed_entry_on_disk [of doc1 ?svc "''out''" world0 0, THEN conjunct1] n
    by simp
  moreover have "fs (fst (download_item ?svc ''out'' pic2 (?wd, 0))) = fs ?wd"
    using skipped_or_failed_entry_on_disk
      [of pic2 ?svc "''out''" ?wd 0, THEN conjunct2, THEN conjunct1] n o2
    by simp
  moreover have "fs (fst (download_item ?svc ''out'' bin5 (world0, 0))) =
      (fs world0)(''out/c.bin'' \<mapsto> File ''xy'')"
    using skipped_or_failed_entry_on_disk
      [of bin5 ?svc "''out''" world0 0 "SdkError ''reset''" ?w5,
       THEN conjunct2, THEN conjunct2] n o5 t5
    unfolding m by simp
  moreover have "fs (fst (download_item ?svc ''out'' gone9 (world0, 0))) =
      (fs world0)(''out/gone'' \<mapsto> File [])"
    using skipped_or_failed_entry_on_disk
      [of gone9 ?svc "''out''" world0 0 "SdkError ''not found''" ?w9,
       THEN conjunct2, THEN conjunct2] n o9 t9
    unfolding m by simp
  ultimately show ?thesis by blast
qed

subsection \<open>C7: a valid cached credential\<close>

text \<open>
  C7: when the token file holds a valid credential, \<open>authenticate\<close> returns a client
  bound to it after three log lines: the interactive flow does not run, no file is opened
  for writing and the files on disk are as before. In any run of \<open>authenticate\<close>, a file
  is opened for writing only if it is the token file and a refresh or the interactive
  flow has returned a credential, which is then what the token file holds; without such
  a write the files on disk are unchanged.
\<close>

theorem valid_token_needs_no_flow_and_no_save:
  "(fs w tf = Some (File b) \<and> loads prov b = Inr (Credential c) \<and> valid c \<longrightarrow>
      authenticate prov cf tf w =
        (Inr (build prov c),
         info AuthenticationSuccessful (info (LoadingToken tf) (info StartingAuthentication w))) \<and>
      fs (snd (authenticate prov cf tf w)) = fs w \<and>
      FlowRun \<notin> set (new_events w (snd (authenticate prov cf tf w))) \<and>
      (\<forall>p. OpenWrite p \<notin> set (new_events w (snd (authenticate prov cf tf w))))) \<and>
   (authenticate prov cf tf w = (r, w') \<and> OpenWrite p \<in> set (new_events w w') \<longrightarrow>
      p = tf \<and>
      (\<exists>c'. r = Inr (build prov c') \<and> fs w' = (fs w)(tf \<mapsto> File (dumps prov c')) \<and>
         ((\<exists>b0 c0. fs w tf = Some (File b0) \<and> loads prov b0 = Inr (Credential c0) \<and>
                refresh prov c0 = Inr c' \<and> RefreshCall \<in> set (new_events w w')) \<or>
          (run_flow prov = Inr c' \<and> FlowRun \<in> set (new_events w w'))))) \<and>
   (authenticate prov cf tf w = (r, w') \<and> (\<forall>q. OpenWrite q \<notin> set (new_events w w')) \<longrightarrow>
      fs w' = fs w)"
proof (intro conjI impI)
  assume h: "fs w tf = Some (File b) \<and> loads prov b = Inr (Credential c) \<and> valid c"
  then show a: "authenticate prov cf tf w =
      (Inr (build prov c),
       info AuthenticationSuccessful (info (LoadingToken tf) (info StartingAuthentication w)))"
    by (simp add: authenticate_def check_creds_def exists_def pickle_load_def Let_def finish_def)
  show "fs (snd (authenticate prov cf tf w)) = fs w"
    by (simp add: a)
  show "FlowRun \<notin> set (new_events w (snd (authenticate prov cf tf w)))"
    by (simp add: a new_events_def)
  show "\<forall>p. OpenWrite p \<notin> set (new_events w (snd (authenticate prov cf tf w)))"
    by (simp add: a new_events_def)
next
  assume h: "authenticate prov cf tf w = (r, w') \<and> OpenWrite p \<in> set (new_events w w')"
  then show "p = tf"
    by (auto simp: auth_defs new_events_def
        split: option.splits node.splits pyobj.splits sum.splits if_splits)
  from h show "\<exists>c'. r = Inr (build prov c') \<and> fs w' = (fs w)(tf \<mapsto> File (dumps prov c')) \<and>
         ((\<exists>b0 c0. fs w tf = Some (File b0) \<and> loads prov b0 = Inr (Credential c0) \<and>
                refresh prov c0 = Inr c' \<and> RefreshCall \<in> set (new_events w w')) \<or>
          (run_flow prov = Inr c' \<and> FlowRun \<in> set (new_events w w')))"
    by (auto simp: auth_defs new_events_def
        split: option.splits node.splits pyobj.splits sum.splits if_splits)
next
  assume h: "authenticate prov cf tf w = (r, w') \<and> (\<forall>q. OpenWrite q \<notin> set (new_events w w'))"
  then show "fs w' = fs w"
    by (auto simp: auth_defs new_events_def
        split: option.splits node.splits pyobj.splits sum.splits if_splits)
qed

theorem valid_token_needs_no_flow_and_no_save_witness:
  "fs (snd (authenticate (google (Inr creds_ok) two_pages) ''credentials.json'' ''token.pkl''
              (world_token (dumps0 creds_ok)))) = fs (world_token (dumps0 creds_ok)) \<and>
   new_events (world_token (dumps0 creds_ok))
     (snd (authenticate (google (Inr creds_ok) two_pages) ''credentials.json'' ''token.pkl''
              (world_token (dumps0 creds_ok)))) =
     [Info StartingAuthentication, Info (LoadingToken ''token.pkl''), Info AuthenticationSuccessful] \<and>
   OpenWrite ''token.pkl'' \<in> set (new_events (world_token (dumps0 creds_old))
     (snd (authenticate (google (Inr creds_ok) two_pages) ''credentials.json'' ''token.pkl''
              (world_token (dumps0 creds_old))))) \<and>
   (RefreshCall \<in> set (new_events (world_token (dumps0 creds_old))
      (snd (authenticate (google (Inr creds_ok) two_pages) ''credentials.json'' ''token.pkl''
              (world_token (dumps0 creds_old))))) \<or>
    FlowRun \<in> set (new_events (world_token (dumps0 creds_old))
      (snd (authenticate (google (Inr creds_ok) two_pages) ''credentials.json'' ''token.pkl''
              (world_token (dumps0 creds_old))))))"
proof -
  let ?prov = "google (Inr creds_ok) two_pages"
  let ?w = "world_token (dumps0 creds_ok)"
  let ?v = "world_token (dumps0 creds_old)"
  let ?r = "fst (authenticate ?prov ''credentials.json'' ''token.pkl'' ?w)"
  let ?w' = "snd (authenticate ?prov ''credentials.json'' ''token.pkl'' ?w)"
  let ?s = "fst (authenticate ?prov ''credentials.json'' ''token.pkl'' ?v)"
  let ?v' = "snd (authenticate ?prov ''credentials.json'' ''token.pkl'' ?v)"
  have h: "fs ?w ''token.pkl'' = Some (File (dumps0 creds_ok)) \<and>
      loads ?prov (dumps0 creds_ok) = Inr (Credential creds_ok) \<and> valid creds_ok"
    by (simp add: example_defs)
  have n: "new_events ?w ?w' =
      [Info StartingAuthentication, Info (LoadingToken ''token.pkl''), Info AuthenticationSuccessful]"
    by (simp add: auth_defs example_defs new_events_def put_def info_def emit_def)
  have o: "OpenWrite ''token.pkl'' \<in> set (new_events ?v ?v')"
    by (simp add: auth_defs example_defs new_events_def put_def info_def emit_def)
  note t = valid_token_needs_no_flow_and_no_save
    [of ?w "''token.pkl''" "dumps0 creds_ok" ?prov creds_ok "''credentials.json''" ?r ?w'
        "''token.pkl''"]
  note u = valid_token_needs_no_flow_and_no_save
    [of ?v "''token.pkl''" "dumps0 creds_ok" ?prov creds_ok "''credentials.json''" ?s ?v'
        "''token.pkl''"]
  have "fs ?w' = fs ?w"
    using t [THEN conjunct1] h by simp
  moreover have "fs ?w' = fs ?w"
    using t [THEN conjunct2, THEN conjunct2] n by simp
  moreover have "RefreshCall \<in> set (new_events ?v ?v') \<or> FlowRun \<in> set (new_events ?v ?v')"
    using u [THEN conjunct2, THEN conjunct1] o
    by auto
  ultimately show ?thesis using n o by blast
qed

subsection \<open>C8: neither token file nor credentials file\<close>

text \<open>
  C8: when neither the token file nor the credentials file exists, \<open>authenticate\<close>
  raises \<open>FileNotFoundError\<close>, the process exits with code 1, and the run has only
  logged three lines: the files on disk are unchanged and no file was opened for writing.
\<close>

theorem no_token_no_client_secret_exits_1:
  assumes "fs w (token a) = None" and "fs w (credentials a) = None"
  shows "authenticate prov (credentials a) (token a) w =
           (Inl (FileNotFoundError (credentials a)),
            info InitiatingFlow (info StartingAuthentication w)) \<and>
         (\<exists>w'. main prov a w = Some (1, w') \<and> fs w' = fs w \<and> writes w' = writes w \<and>
               new_events w w' =
                 [Info StartingAuthentication, Info InitiatingFlow,
                  Error (ProgramFailed (FileNotFoundError (credentials a)))])"
proof -
  have a: "authenticate prov (credentials a) (token a) w =
      (Inl (FileNotFoundError (credentials a)), info InitiatingFlow (info StartingAuthentication w))"
    by (simp add: authenticate_def check_creds_def exists_def Let_def assms renew_and_save_def
                  renew_def new_flow_def)
  have "main prov a w = Some (1, log_error (ProgramFailed (FileNotFoundError (credentials a)))
      (info InitiatingFlow (info StartingAuthentication w)))"
    by (simp add: main_def a)
  then show ?thesis
    using a by (simp add: new_events_def)
qed

theorem no_token_no_client_secret_exits_1_witness:
  "fs world0 (token args0) = None \<and> fs world0 (credentials args0) = None \<and>
   (\<exists>w'. main (google (Inr creds_ok) two_pages) args0 world0 = Some (1, w') \<and>
         fs w' = fs world0 \<and> writes w' = [])"
proof -
  have h: "fs world0 (token args0) = None" "fs world0 (credentials args0) = None"
    by (simp_all add: world0_def)
  have w: "writes world0 = []"
    by (simp add: writes_def world0_def)
  from no_token_no_client_secret_exits_1 [OF h, of "google (Inr creds_ok) two_pages"] h
  show ?thesis unfolding w by auto
qed

subsection \<open>C9: a refresh does not need the credentials file\<close>

text \<open>
  C9 says that with an expired credential that has a refresh token and a provider that
  accepts the refresh, \<open>authenticate\<close> succeeds. After the refresh the code opens the
  token file for writing (line 47) without a handler. Here only the token file exists,
  the provider accepts the refresh, the system refuses to open the token file for
  writing, and \<open>authenticate\<close> raises the error of \<open>open\<close>.
\<close>

theorem accepted_refresh_can_still_fail:
  "fs (world_readonly (dumps0 creds_old)) ''token.pkl'' = Some (File (dumps0 creds_old)) \<and>
   loads (google (Inr creds_ok) two_pages) (dumps0 creds_old) = Inr (Credential creds_old) \<and>
   expired creds_old \<and> truthy (refresh_token creds_old) \<and>
   refresh (google (Inr creds_ok) two_pages) creds_old = Inr creds_ok \<and>
   fs (world_readonly (dumps0 creds_old)) ''credentials.json'' = None \<and>
   fst (authenticate (google (Inr creds_ok) two_pages) ''credentials.json'' ''token.pkl''
          (world_readonly (dumps0 creds_old))) = Inl (OSError ''token.pkl'')"
  by (simp add: auth_defs example_defs)

text \<open>
  C9, amended: when the token file holds a credential that is not valid, is expired and
  has a refresh token, and the provider accepts the refresh, then, if the token file can
  be opened for writing, \<open>authenticate\<close> returns a client bound to the refreshed
  credential, whatever the path of the credentials file is and whether or not a file is
  there; the token file then holds the refreshed credential and the interactive flow has
  not run. If the token file cannot be opened for writing, \<open>authenticate\<close> raises the
  error of \<open>open\<close>. The check of the credentials file belongs to the interactive branch
  alone: outside that branch the result does not depend on the credentials path, and on
  that branch a missing file makes \<open>authenticate\<close> raise \<open>FileNotFoundError\<close>.
\<close>

theorem refresh_needs_no_client_secret:
  "(fs w tf = Some (File b) \<and> loads prov b = Inr (Credential c) \<and> \<not> valid c \<and> expired c \<and>
    truthy (refresh_token c) \<and> refresh prov c = Inr c' \<and> writable w tf \<longrightarrow>
      fst (authenticate prov cf tf w) = Inr (build prov c') \<and>
      fs (snd (authenticate prov cf tf w)) = (fs w)(tf \<mapsto> File (dumps prov c')) \<and>
      FlowRun \<notin> set (new_events w (snd (authenticate prov cf tf w)))) \<and>
   (fs w tf = Some (File b) \<and> loads prov b = Inr (Credential c) \<and> \<not> valid c \<and> expired c \<and>
    truthy (refresh_token c) \<and> refresh prov c = Inr c' \<and> \<not> writable w tf \<longrightarrow>
      fst (authenticate prov cf tf w) = Inl (OSError tf) \<and>
      fs (snd (authenticate prov cf tf w)) = fs w) \<and>
   (\<not> interactive_branch prov tf w \<longrightarrow>
      authenticate prov cf tf w = authenticate prov cf' tf w) \<and>
   (interactive_branch prov tf w \<and> \<not> exists cf w \<longrightarrow>
      fst (authenticate prov cf tf w) = Inl (FileNotFoundError cf))"
proof (intro conjI impI)
  assume h: "fs w tf = Some (File b) \<and> loads prov b = Inr (Credential c) \<and> \<not> valid c \<and>
    expired c \<and> truthy (refresh_token c) \<and> refresh prov c = Inr c' \<and> writable w tf"
  then have f: "fs w tf = Some (File b)" and ld: "loads prov b = Inr (Credential c)"
    and nv: "\<not> valid c" and ex: "expired c"
    and rt: "truthy (refresh_token c)" and rf: "refresh prov c = Inr c'" and wr: "openable w tf"
    by (simp_all add: openable_def)
  note a = authenticate_refresh [OF f ld nv ex rt rf, of cf]
  show "fst (authenticate prov cf tf w) = Inr (build prov c')"
    by (simp add: a wr)
  show "fs (snd (authenticate prov cf tf w)) = (fs w)(tf \<mapsto> File (dumps prov c'))"
    by (simp add: a wr)
  show "FlowRun \<notin> set (new_events w (snd (authenticate prov cf tf w)))"
    by (simp add: a wr new_events_def)
next
  assume h: "fs w tf = Some (File b) \<and> loads prov b = Inr (Credential c) \<and> \<not> valid c \<and>
    expired c \<and> truthy (refresh_token c) \<and> refresh prov c = Inr c' \<and> \<not> writable w tf"
  then have f: "fs w tf = Some (File b)" and ld: "loads prov b = Inr (Credential c)"
    and nv: "\<not> valid c" and ex: "expired c"
    and rt: "truthy (refresh_token c)" and rf: "refresh prov c = Inr c'"
    and wr: "\<not> openable w tf"
    by (simp_all add: openable_def)
  note a = authenticate_refresh [OF f ld nv ex rt rf, of cf]
  show "fst (authenticate prov cf tf w) = Inl (OSError tf)"
    by (simp add: a wr)
  show "fs (snd (authenticate prov cf tf w)) = fs w"
    by (simp add: a wr)
next
  assume "\<not> interactive_branch prov tf w"
  then show "authenticate prov cf tf w = authenticate prov cf' tf w"
    by (auto simp: interactive_branch_def authenticate_def check_creds_def exists_def
          pickle_load_def Let_def renew_and_save_def renew_def
        split: option.splits node.splits sum.splits pyobj.splits)
next
  assume "interactive_branch prov tf w \<and> \<not> exists cf w"
  then show "fst (authenticate prov cf tf w) = Inl (FileNotFoundError cf)"
    by (auto simp: interactive_branch_def authenticate_def check_creds_def exists_def
          pickle_load_def Let_def renew_and_save_def renew_def new_flow_def
        split: option.splits node.splits sum.splits pyobj.splits)
qed

theorem refresh_needs_no_client_secret_witness:
  "fs (put ''token.pkl'' (File (dumps0 creds_old)) world0) ''credentials.json'' = None \<and>
   fst (authenticate (google (Inr creds_ok) two_pages) ''credentials.json'' ''token.pkl''
          (put ''token.pkl'' (File (dumps0 creds_old)) world0)) = Inr (drive two_pages creds_ok) \<and>
   fst (authenticate (google (Inr creds_ok) two_pages) ''credentials.json'' ''token.pkl''
          (world_readonly (dumps0 creds_old))) = Inl (OSError ''token.pkl'') \<and>
   authenticate (google (Inr creds_ok) two_pages) ''credentials.json'' ''token.pkl''
          (put ''token.pkl'' (File (dumps0 creds_old)) world0) =
     authenticate (google (Inr creds_ok) two_pages) ''other.json'' ''token.pkl''
          (put ''token.pkl'' (File (dumps0 creds_old)) world0) \<and>
   fst (authenticate (google (Inr creds_ok) two_pages) ''credentials.json'' ''token.pkl'' world0) =
     Inl (FileNotFoundError ''credentials.json'')"
proof -
  let ?w = "put ''token.pkl'' (File (dumps0 creds_old)) world0"
  let ?ro = "world_readonly (dumps0 creds_old)"
  let ?prov = "google (Inr creds_ok) two_pages"
  have h: "fs ?w ''token.pkl'' = Some (File (dumps0 creds_old)) \<and>
      loads ?prov (dumps0 creds_old) = Inr (Credential creds_old) \<and> \<not> valid creds_old \<and>
      expired creds_old \<and> truthy (refresh_token creds_old) \<and>
      refresh ?prov creds_old = Inr creds_ok \<and> writable ?w ''token.pkl''"
    by (simp add: example_defs truthy_def)
  have g: "fs ?ro ''token.pkl'' = Some (File (dumps0 creds_old)) \<and>
      loads ?prov (dumps0 creds_old) = Inr (Credential creds_old) \<and> \<not> valid creds_old \<and>
      expired creds_old \<and> truthy (refresh_token creds_old) \<and>
      refresh ?prov creds_old = Inr creds_ok \<and> \<not> writable ?ro ''token.pkl''"
    by (simp add: example_defs truthy_def)
  have n: "fs ?w ''credentials.json'' = None"
    by (simp add: world0_def)
  have i: "\<not> interactive_branch ?prov ''token.pkl'' ?w"
    by (simp add: interactive_branch_def example_defs truthy_def)
  have j: "interactive_branch ?prov ''token.pkl'' world0 \<and> \<not> exists ''credentials.json'' world0"
    by (simp add: interactive_branch_def exists_def example_defs)
  have b: "build ?prov creds_ok = drive two_pages creds_ok"
    by (simp add: google_def)
  note t = refresh_needs_no_client_secret
         [of ?w "''token.pkl''" "dumps0 creds_old" ?prov creds_old creds_ok
             "''credentials.json''" "''other.json''"]
  note s = refresh_needs_no_client_secret
         [of ?ro "''token.pkl''" "dumps0 creds_old" ?prov creds_old creds_ok
             "''credentials.json''" "''other.json''"]
  note u = refresh_needs_no_client_secret
         [of world0 "''token.pkl''" "dumps0 creds_old" ?prov creds_old creds_ok
             "''credentials.json''" "''other.json''"]
  have "fst (authenticate ?prov ''credentials.json'' ''token.pkl'' ?w) = Inr (drive two_pages creds_ok)"
    using t [THEN conjunct1] h b by simp
  moreover have "fst (authenticate ?prov ''credentials.json'' ''token.pkl'' ?ro) =
      Inl (OSError ''token.pkl'')"
    using s [THEN conjunct2, THEN conjunct1] g by simp
  moreover have "authenticate ?prov ''credentials.json'' ''token.pkl'' ?w =
      authenticate ?prov ''other.json'' ''token.pkl'' ?w"
    using t [THEN conjunct2, THEN conjunct2, THEN conjunct1] i by simp
  moreover have "fst (authenticate ?prov ''credentials.json'' ''token.pkl'' world0) =
      Inl (FileNotFoundError ''credentials.json'')"
    using u [THEN conjunct2, THEN conjunct2, THEN conjunct2] j by simp
  ultimately show ?thesis using n by blast
qed

subsection \<open>C10: an empty page\<close>

text \<open>
  C10: when the loop comes to a page without entries, the first page or a later one, that
  turn of the loop is a \<open>Break\<close> which only logs two lines, and \<open>download_all_files\<close>
  returns the count of the pages before it. Nothing is asked of the next page token of
  the empty page: it may name a further page.
\<close>

theorem empty_page_ends_loop:
  assumes "makedirs dir (info (CreatingDirectory dir) w) = Inr w1"
    and "visits svc n None items t"
    and "files_list svc n t = Inr results"
    and "items_of results = []"
  shows "\<exists>w2. reaches svc dir n (None, w1, 0)
                 (t, w2, length (filter (completed svc dir w1) items)) \<and>
              fetch_page svc dir n t (w2, length (filter (completed svc dir w1) items)) =
                Break (info NoFilesFound (info FetchingFileList w2),
                       length (filter (completed svc dir w1) items)) \<and>
              download_all_files svc dir n w =
                Some (Inr (length (filter (completed svc dir w1) items)),
                      info (TotalDownloaded (length (filter (completed svc dir w1) items)))
                        (info NoFilesFound (info FetchingFileList w2)))"
proof -
  let ?k = "length (filter (completed svc dir w1) items)"
  from visits_reaches [OF assms(2), of dir w1 0] obtain w2 where
    r: "reaches svc dir n (None, w1, 0) (t, w2, ?k)"
    by auto
  have p: "fetch_page svc dir n t (w2, ?k) = Break (info NoFilesFound (info FetchingFileList w2), ?k)"
    by (rule fetch_page_empty [OF assms(3,4)])
  have "fetch_loop svc dir n None (w1, 0) = fetch_loop svc dir n t (w2, ?k)"
    using reaches_loop [OF r] by simp
  also have "\<dots> = Some (info NoFilesFound (info FetchingFileList w2), ?k)"
    by (rule fetch_loop_break [OF p])
  finally have "download_all_files svc dir n w =
      Some (Inr ?k, info (TotalDownloaded ?k) (info NoFilesFound (info FetchingFileList w2)))"
    by (simp add: download_all_files_def Let_def assms(1))
  with r p show ?thesis by blast
qed

theorem empty_page_ends_loop_witness:
  "truthy (nextPageToken \<lparr>files = Some [], nextPageToken = Some ''p3''\<rparr>) \<and>
   (\<exists>w'. download_all_files (drive empty_second creds_ok) ''drive_download'' 1000 world0 =
           Some (Inr 1, w'))"
proof -
  let ?svc = "drive empty_second creds_ok"
  let ?w1 = "put ''drive_download'' Dir (info (CreatingDirectory ''drive_download'') world0)"
  let ?r = "\<lparr>files = Some [], nextPageToken = Some ''p3''\<rparr>"
  have m: "makedirs ''drive_download'' (info (CreatingDirectory ''drive_download'') world0) = Inr ?w1"
    by (simp add: makedirs_def world0_def)
  have "visits ?svc 1000 None
          (items_of \<lparr>files = Some [pic2], nextPageToken = Some ''p2''\<rparr> @ [])
          (nextPageToken \<lparr>files = Some [pic2], nextPageToken = Some ''p2''\<rparr>)"
    by (rule visits.page [OF _ _ _ visits.here])
       (simp_all add: drive_def empty_second_def items_of_def truthy_def)
  then have v: "visits ?svc 1000 None [pic2] (Some ''p2'')"
    by (simp add: items_of_def)
  have f: "files_list ?svc 1000 (Some ''p2'') = Inr ?r"
    by (simp add: drive_def empty_second_def)
  have i: "items_of ?r = []"
    by (simp add: items_of_def)
  have c: "length (filter (completed ?svc ''drive_download'' ?w1) [pic2]) = 1"
    by (simp add: notion_defs example_defs)
  from empty_page_ends_loop [OF m v f i] show ?thesis
    unfolding c by (auto simp: truthy_def)
qed

end
